theory Spec2Isabelle
  imports Complex_Main "HOL-Library.Multiset"
begin

section \<open>Colour-space arithmetic (color_analyzer.py)\<close>

text \<open>
  An RGB colour is a Python tuple of three integers; a LAB colour is a NumPy vector of
  three floats. Floating-point values whose computation goes through \<open>**\<close> with a
  fractional exponent or through \<open>np.sqrt\<close> are read as real numbers: the operations are
  the exact ones, rounding is not part of this reading.
\<close>

type_synonym rgb = "int \<times> int \<times> int"
type_synonym lab = "real \<times> real \<times> real"

text \<open>
  \<^verbatim>\<open>rgb = np.where(rgb > 0.04045, ((rgb + 0.055) / 1.055) ** 2.4, rgb / 12.92)\<close>,
  for one channel.
\<close>

definition gamma_correct :: "real \<Rightarrow> real" where
  "gamma_correct v = (if v > 0.04045 then ((v + 0.055) / 1.055) powr 2.4 else v / 12.92)"

text \<open>
  \<^verbatim>\<open>xyz = np.where(xyz > 0.008856, xyz ** (1/3), (7.787 * xyz + 16/116))\<close>,
  for one component.
\<close>

definition lab_f :: "real \<Rightarrow> real" where
  "lab_f t = (if t > 0.008856 then t powr (1 / 3) else 7.787 * t + 16 / 116)"

definition rgb_to_lab :: "rgb \<Rightarrow> lab" where
  "rgb_to_lab c =
     (case c of (r0, g0, b0) \<Rightarrow>
        let r = gamma_correct (real_of_int r0 / 255);
            g = gamma_correct (real_of_int g0 / 255);
            b = gamma_correct (real_of_int b0 / 255);
            x = (0.4124564 * r + 0.3575761 * g + 0.1804375 * b) / 0.95047;
            y = (0.2126729 * r + 0.7151522 * g + 0.0721750 * b) / 1.00000;
            z = (0.0193339 * r + 0.1191920 * g + 0.9503041 * b) / 1.08883;
            fx = lab_f x; fy = lab_f y; fz = lab_f z
        in (116 * fy - 16, 500 * (fx - fy), 200 * (fy - fz)))"

text \<open>
  \<^verbatim>\<open>delta_e = np.sqrt(np.sum((lab1 - lab2) ** 2))\<close>. The \<open>except\<close> branch of the
  source (Euclidean distance of the raw triples) is taken only when \<open>rgb_to_lab\<close>
  raises, which it does not on a triple of integers.
\<close>

definition calculate_color_difference :: "rgb \<Rightarrow> rgb \<Rightarrow> real" where
  "calculate_color_difference color1_rgb color2_rgb =
     (case (rgb_to_lab color1_rgb, rgb_to_lab color2_rgb) of
        ((l1, a1, b1), (l2, a2, b2)) \<Rightarrow>
          sqrt ((l1 - l2)\<^sup>2 + (a1 - a2)\<^sup>2 + (b1 - b2)\<^sup>2))"

section \<open>Double-precision arithmetic\<close>

text \<open>
  A Python float is an IEEE 754 double, read here as the real number it denotes. A single
  division or multiplication returns the exact result rounded to the nearest double, ties
  to even: a double with exponent \<open>e\<close> is an integer of at most 53 bits times \<open>2 powi e\<close>.
  Overflow and subnormal numbers are left out; the quantities below (ratios of pixel
  counts, percentages, thirds of an image side) stay far from both.
\<close>

definition round_half_even :: "real \<Rightarrow> int" where
  "round_half_even m =
     (let f = \<lfloor>m\<rfloor>; d = m - of_int f
      in if d < 1 / 2 then f else if 1 / 2 < d then f + 1 else if even f then f else f + 1)"

definition float_exponent :: "real \<Rightarrow> int" where
  "float_exponent x = \<lfloor>log 2 \<bar>x\<bar>\<rfloor> - 52"

definition round_double :: "real \<Rightarrow> real" where
  "round_double x =
     (if x = 0 then 0
      else of_int (round_half_even (x / 2 powi float_exponent x)) * 2 powi float_exponent x)"

text \<open>The doubles, up to the range of the exponent.\<close>

definition representable :: "real \<Rightarrow> bool" where
  "representable v \<longleftrightarrow> (\<exists>m k. v = of_int m * 2 powi k \<and> \<bar>m\<bar> < 2 ^ 53)"

text \<open>
  \<^verbatim>\<open>a / b\<close> and \<^verbatim>\<open>a * b\<close> on floats, and the conversion of an integer (a NumPy
  \<open>int64\<close> or a Python \<open>int\<close>) to a float. The divisor is never zero where these are
  used on the paths the theorems are about.
\<close>

definition fdiv :: "real \<Rightarrow> real \<Rightarrow> real" where
  "fdiv a b = round_double (a / b)"

definition fmul :: "real \<Rightarrow> real \<Rightarrow> real" where
  "fmul a b = round_double (a * b)"

definition double_of_nat :: "nat \<Rightarrow> real" where
  "double_of_nat n = round_double (real n)"

definition double_of_int :: "int \<Rightarrow> real" where
  "double_of_int i = round_double (real_of_int i)"

text \<open>
  \<^verbatim>\<open>a + b\<close>, \<^verbatim>\<open>a - b\<close> and \<open>np.sqrt\<close>, each correctly rounded as IEEE 754
  requires of addition, subtraction and the square root.
\<close>

definition fadd :: "real \<Rightarrow> real \<Rightarrow> real" where
  "fadd a b = round_double (a + b)"

definition fsub :: "real \<Rightarrow> real \<Rightarrow> real" where
  "fsub a b = round_double (a - b)"

definition fsqrt :: "real \<Rightarrow> real" where
  "fsqrt a = round_double (sqrt a)"

text \<open>
  The sum of a \<open>float64\<close> array as NumPy's \<open>add.reduce\<close> computes it (pairwise
  summation): fewer than 8 elements are added from left to right; up to 128 elements are
  added into 8 running sums, element \<open>i\<close> into sum \<open>i mod 8\<close>, the sums are combined as
  \<^verbatim>\<open>((r0 + r1) + (r2 + r3)) + ((r4 + r5) + (r6 + r7))\<close> and the elements after the last
  full block of 8 are added one by one; a longer array is split at half its length rounded
  down to a multiple of 8, and the sums of the two parts are added.
\<close>

function pairwise_sum :: "real list \<Rightarrow> real" where
  "pairwise_sum a =
     (if length a < 8 then foldl fadd 0 a
      else if length a \<le> 128 then
        (let m = length a - length a mod 8;
             r = foldl (\<lambda>r i. map2 fadd r (take 8 (drop (8 * i) a))) (take 8 a) [1..<m div 8];
             res = fadd (fadd (fadd (r ! 0) (r ! 1)) (fadd (r ! 2) (r ! 3)))
                        (fadd (fadd (r ! 4) (r ! 5)) (fadd (r ! 6) (r ! 7)))
         in foldl fadd res (drop m a))
      else
        (let n2 = length a div 2 - (length a div 2) mod 8
         in fadd (pairwise_sum (take n2 a)) (pairwise_sum (drop n2 a))))"
  by pat_completeness auto
termination
  by (relation "measure length") auto


section \<open>Spatial analysis (color_analyzer.py)\<close>

text \<open>
  \<open>np.max\<close> and \<open>np.min\<close> of a coordinate array. The callers pass them non-empty
  arrays only.
\<close>

definition np_max :: "nat list \<Rightarrow> nat" where
  "np_max zs = Max (set zs)"

definition np_min :: "nat list \<Rightarrow> nat" where
  "np_min zs = Min (set zs)"

text \<open>
  \<open>np.std\<close> of an integer array, as NumPy computes it in \<open>float64\<close>:
  \<^verbatim>\<open>arrmean = sum(arr) / n\<close>, \<^verbatim>\<open>x = arr - arrmean\<close>, \<^verbatim>\<open>x = x * x\<close>,
  \<^verbatim>\<open>ret = sum(x) / n\<close>, \<^verbatim>\<open>sqrt(ret)\<close>. The first sum adds integers converted to
  doubles; every partial sum is an integer below \<open>2 ^ 53\<close> for the coordinates of an
  image, hence exact in any order.
\<close>

definition np_std :: "nat list \<Rightarrow> real" where
  "np_std zs =
     (let n = double_of_nat (length zs);
          arrmean = fdiv (double_of_nat (sum_list zs)) n;
          x = map (\<lambda>z. fsub (double_of_nat z) arrmean) zs;
          x = map (\<lambda>d. fmul d d) x;
          ret = fdiv (pairwise_sum x) n
      in fsqrt ret)"

text \<open>
  \<^verbatim>\<open>(np.max(coords) - np.min(coords)) / side\<close> and \<^verbatim>\<open>np.std(coords) / side\<close>.
\<close>

definition normalized_spread :: "nat list \<Rightarrow> nat \<Rightarrow> real" where
  "normalized_spread coords side =
     fdiv (double_of_nat (np_max coords - np_min coords)) (double_of_nat side)"

definition normalized_std :: "nat list \<Rightarrow> nat \<Rightarrow> real" where
  "normalized_std coords side = fdiv (np_std coords) (double_of_nat side)"

text \<open>
  \<open>_classify_distribution\<close>. The literals \<open>0.7\<close>, \<open>0.15\<close> and \<open>0.3\<close> are the doubles
  nearest to these decimals.
\<close>

definition classify_distribution :: "nat list \<Rightarrow> nat list \<Rightarrow> nat \<Rightarrow> nat \<Rightarrow> string" where
  "classify_distribution y_coords x_coords height width =
     (if length y_coords = 0 then ''none''
      else
        let y_spread = normalized_spread y_coords height;
            x_spread = normalized_spread x_coords width;
            y_std = normalized_std y_coords height;
            x_std = normalized_std x_coords width
        in if y_spread > round_double 0.7 \<and> x_spread > round_double 0.7 then ''widespread''
           else if y_std < round_double 0.15 \<and> x_std < round_double 0.15 then ''concentrated''
           else if y_spread < round_double 0.3 \<or> x_spread < round_double 0.3 then ''localized''
           else ''scattered'')"

text \<open>
  The classification as the specification words it, on exact quantities: the spread
  \<open>(max - min) / side\<close> and the population standard deviation over the side, both as
  real numbers, compared with 0.7, 0.15 and 0.3.
\<close>

definition exact_spread :: "nat list \<Rightarrow> nat \<Rightarrow> real" where
  "exact_spread coords side = (real (np_max coords) - real (np_min coords)) / real side"

definition exact_mean :: "nat list \<Rightarrow> real" where
  "exact_mean zs = real (sum_list zs) / real (length zs)"

definition exact_std :: "nat list \<Rightarrow> real" where
  "exact_std zs = sqrt (sum_list (map (\<lambda>z. (real z - exact_mean zs)\<^sup>2) zs) / real (length zs))"

definition distribution_by_spec :: "nat list \<Rightarrow> nat list \<Rightarrow> nat \<Rightarrow> nat \<Rightarrow> string" where
  "distribution_by_spec y_coords x_coords height width =
     (if exact_spread y_coords height > 0.7 \<and> exact_spread x_coords width > 0.7
      then ''widespread''
      else if exact_std y_coords / real height < 0.15 \<and> exact_std x_coords / real width < 0.15
      then ''concentrated''
      else if exact_spread y_coords height < 0.3 \<or> exact_spread x_coords width < 0.3
      then ''localized''
      else ''scattered'')"

text \<open>The \<open>coverage\<close> dictionary, with its six fixed keys.\<close>

record coverage =
  cov_top :: real
  cov_middle :: real
  cov_bottom :: real
  cov_left :: real
  cov_center :: real
  cov_right :: real

definition np_sum :: "bool list \<Rightarrow> nat" where
  "np_sum bs = length (filter (\<lambda>b. b) bs)"

text \<open>\<^verbatim>\<open>np.sum(mask) / total_pixels * 100\<close>\<close>

definition region_percentage :: "bool list \<Rightarrow> nat \<Rightarrow> real" where
  "region_percentage region_mask total_pixels =
     fmul (fdiv (double_of_nat (np_sum region_mask)) (double_of_nat total_pixels)) 100"

text \<open>
  The masks of \<open>_analyze_regional_coverage\<close>, one definition for both axes:
  \<^verbatim>\<open>coords < side / 3\<close> (\<open>top_mask\<close>, \<open>left_mask\<close>),
  \<^verbatim>\<open>(coords >= side / 3) & (coords < 2 * side / 3)\<close> (\<open>middle_mask\<close>, \<open>center_mask\<close>) and
  \<^verbatim>\<open>coords >= 2 * side / 3\<close> (\<open>bottom_mask\<close>, \<open>right_mask\<close>). The bounds are quotients
  of Python integers, rounded once; a coordinate is compared with them as a double.
\<close>

definition first_third_mask :: "nat list \<Rightarrow> nat \<Rightarrow> bool list" where
  "first_third_mask coords side = map (\<lambda>c. double_of_nat c < fdiv (real side) 3) coords"

definition second_third_mask :: "nat list \<Rightarrow> nat \<Rightarrow> bool list" where
  "second_third_mask coords side =
     map (\<lambda>c. double_of_nat c \<ge> fdiv (real side) 3 \<and>
              double_of_nat c < fdiv (real (2 * side)) 3) coords"

definition last_third_mask :: "nat list \<Rightarrow> nat \<Rightarrow> bool list" where
  "last_third_mask coords side = map (\<lambda>c. double_of_nat c \<ge> fdiv (real (2 * side)) 3) coords"

definition analyze_regional_coverage :: "nat list \<Rightarrow> nat list \<Rightarrow> nat \<Rightarrow> nat \<Rightarrow> coverage" where
  "analyze_regional_coverage y_coords x_coords height width =
     (if length y_coords = 0
      then \<lparr>cov_top = 0, cov_middle = 0, cov_bottom = 0,
            cov_left = 0, cov_center = 0, cov_right = 0\<rparr>
      else
        let total_pixels = length y_coords;
            top_mask = first_third_mask y_coords height;
            middle_mask = second_third_mask y_coords height;
            bottom_mask = last_third_mask y_coords height;
            left_mask = first_third_mask x_coords width;
            center_mask = second_third_mask x_coords width;
            right_mask = last_third_mask x_coords width
        in \<lparr>cov_top = region_percentage top_mask total_pixels,
            cov_middle = region_percentage middle_mask total_pixels,
            cov_bottom = region_percentage bottom_mask total_pixels,
            cov_left = region_percentage left_mask total_pixels,
            cov_center = region_percentage center_mask total_pixels,
            cov_right = region_percentage right_mask total_pixels\<rparr>)"

text \<open>\<open>_find_primary_areas\<close>: the vertical thirds above 20 percent, else the horizontal ones.\<close>

definition find_primary_areas :: "coverage \<Rightarrow> string list" where
  "find_primary_areas cov =
     (let primary = (if cov_top cov > 20 then [''top''] else []) @
                    (if cov_middle cov > 20 then [''middle''] else []) @
                    (if cov_bottom cov > 20 then [''bottom''] else []);
          primary = (if length primary = 0
                     then (if cov_left cov > 20 then [''left''] else []) @
                          (if cov_center cov > 20 then [''center''] else []) @
                          (if cov_right cov > 20 then [''right''] else [])
                     else primary)
      in if primary \<noteq> [] then primary else [''scattered''])"

definition area_descriptions :: "(string \<times> string) list" where
  "area_descriptions =
     [(''top'', ''Upper portion''), (''middle'', ''Middle section''),
      (''bottom'', ''Lower portion''), (''left'', ''Left side''),
      (''center'', ''Center area''), (''right'', ''Right side'')]"

text \<open>\<open>_describe_regions\<close>; its \<open>coverage\<close> argument is not read.\<close>

definition describe_regions :: "coverage \<Rightarrow> string list \<Rightarrow> string list" where
  "describe_regions cov primary_areas =
     (if primary_areas = [] \<or> primary_areas = [''scattered''] then [''Throughout the image'']
      else
        let regions = List.map_filter (map_of area_descriptions) primary_areas;
            regions =
              (if ''top'' \<in> set primary_areas \<and> ''bottom'' \<in> set primary_areas
               then (if ''Top and bottom edges'' \<notin> set regions
                     then [''Top and bottom edges''] else regions)
               else if ''left'' \<in> set primary_areas \<and> ''right'' \<in> set primary_areas
               then (if ''Left and right sides'' \<notin> set regions
                     then [''Left and right sides''] else regions)
               else regions)
        in if regions \<noteq> [] then regions else [''Various areas''])"

record location_info =
  regions :: "string list"
  distribution :: string
  primary_areas :: "string list"
  coverage :: coverage

text \<open>
  \<open>_analyze_color_location\<close>, given the shape of the image array and the label of every
  pixel. \<^verbatim>\<open>labels.reshape(height, width)\<close> raises when the number of labels is not
  \<open>height * width\<close>, and the handler returns the ``unavailable'' value. \<open>np.where\<close>
  lists the matching pixels row by row: the pixel at flat index \<open>i\<close> has
  \<open>y = i div width\<close> and \<open>x = i mod width\<close>.
\<close>

definition analyze_color_location :: "nat \<Rightarrow> nat \<Rightarrow> nat list \<Rightarrow> nat \<Rightarrow> location_info" where
  "analyze_color_location height width labels cluster_id =
     (if length labels \<noteq> height * width
      then \<lparr>regions = [''Analysis unavailable''], distribution = ''unknown'', primary_areas = [],
            coverage = \<lparr>cov_top = 0, cov_middle = 0, cov_bottom = 0,
                         cov_left = 0, cov_center = 0, cov_right = 0\<rparr>\<rparr>
      else
        let cluster = filter (\<lambda>i. labels ! i = cluster_id) [0..<length labels]
        in if cluster = []
           then \<lparr>regions = [''Not found''], distribution = ''scattered'', primary_areas = [],
                 coverage = \<lparr>cov_top = 0, cov_middle = 0, cov_bottom = 0,
                              cov_left = 0, cov_center = 0, cov_right = 0\<rparr>\<rparr>
           else
             let y_coords = map (\<lambda>i. i div width) cluster;
                 x_coords = map (\<lambda>i. i mod width) cluster;
                 distribution = classify_distribution y_coords x_coords height width;
                 coverage = analyze_regional_coverage y_coords x_coords height width;
                 primary_areas = find_primary_areas coverage;
                 regions = describe_regions coverage primary_areas
             in \<lparr>regions = regions, distribution = distribution,
                 primary_areas = primary_areas, coverage = coverage\<rparr>)"

section \<open>Dominant colours (color_analyzer.py)\<close>

text \<open>
  \<open>extract_dominant_colors\<close> runs inside \<^verbatim>\<open>try: ... except Exception\<close>, so one value
  stands for every exception. The calls into Pillow, scikit-learn and \<open>colorsys\<close> are
  not code of this program; they are parameters. An image arrives as the outcome of the
  conversion to RGB, the resize and \<open>np.array(image)\<close>: an exception, or an array of
  \<open>height * width\<close> pixels listed row by row, each channel a \<open>uint8\<close>.
\<close>

datatype exn = Exception

type_synonym pixel = "nat \<times> nat \<times> nat"

record img_array =
  img_height :: nat
  img_width :: nat
  img_pixels :: "pixel list"

text \<open>A fitted \<open>KMeans\<close>: \<open>cluster_centers_\<close> and \<open>labels_\<close>.\<close>

record kmeans =
  km_cluster_centers :: "(real \<times> real \<times> real) list"
  km_labels :: "nat list"

text \<open>
  \<^verbatim>\<open>KMeans(n_clusters=k, random_state=42, n_init='auto').fit(pixels)\<close>,
  \<^verbatim>\<open>kmeans.predict(pixels)\<close> and \<^verbatim>\<open>colorsys.rgb_to_hsv(r, g, b)\<close>.
\<close>

record library =
  kmeans_fit :: "int \<Rightarrow> pixel list \<Rightarrow> exn + kmeans"
  kmeans_predict :: "kmeans \<Rightarrow> pixel list \<Rightarrow> exn + nat list"
  rgb_to_hsv :: "real \<Rightarrow> real \<Rightarrow> real \<Rightarrow> real \<times> real \<times> real"

text \<open>
  \<^verbatim>\<open>brightness = np.mean(pixels, axis=1); mask = (brightness > 20) & (brightness < 235)\<close>
\<close>

definition brightness_mask :: "pixel \<Rightarrow> bool" where
  "brightness_mask p =
     (case p of (r, g, b) \<Rightarrow>
        let brightness = fdiv (double_of_nat (r + g + b)) 3
        in brightness > 20 \<and> brightness < 235)"

text \<open>The pixels handed to \<open>fit\<close>: the filtered ones, or all of them when too few remain.\<close>

definition clustering_input :: "img_array \<Rightarrow> int \<Rightarrow> pixel list" where
  "clustering_input img num_colors =
     (let pixels = img_pixels img;
          filtered_pixels = filter brightness_mask pixels
      in if int (length filtered_pixels) < num_colors then pixels else filtered_pixels)"

text \<open>\<^verbatim>\<open>.astype(int)\<close> on a float: truncation towards zero.\<close>

definition astype_int :: "real \<Rightarrow> int" where
  "astype_int x = (if 0 \<le> x then \<lfloor>x\<rfloor> else \<lceil>x\<rceil>)"

text \<open>\<^verbatim>\<open>"{:02x}".format(n)\<close>: lower-case hexadecimal, padded with zeros to two characters.\<close>

definition hex_digit :: "nat \<Rightarrow> char" where
  "hex_digit d = ''0123456789abcdef'' ! d"

fun hex_digits :: "nat \<Rightarrow> string" where
  "hex_digits n = (if n < 16 then [hex_digit n] else hex_digits (n div 16) @ [hex_digit (n mod 16)])"

definition format_02x :: "int \<Rightarrow> string" where
  "format_02x n =
     (if n < 0 then CHR ''-'' # hex_digits (nat (- n))
      else let s = hex_digits (nat n) in replicate (2 - length s) CHR ''0'' @ s)"

record extracted_color =
  rgb :: rgb
  hex :: string
  percentage :: real
  hsv :: "real \<times> real \<times> real"
  brightness :: real
  location_info :: location_info

text \<open>
  \<^verbatim>\<open>count = np.sum(filtered_labels == i); percentage = (count / total_pixels) * 100\<close>
\<close>

definition cluster_percentage :: "nat list \<Rightarrow> nat \<Rightarrow> nat \<Rightarrow> real" where
  "cluster_percentage filtered_labels i total_pixels =
     fmul (fdiv (double_of_nat (np_sum (map (\<lambda>l. l = i) filtered_labels)))
                (double_of_nat total_pixels)) 100"

text \<open>The body of the loop over \<^verbatim>\<open>enumerate(colors)\<close>.\<close>

definition color_entry ::
  "library \<Rightarrow> img_array \<Rightarrow> nat list \<Rightarrow> nat list \<Rightarrow> nat \<times> rgb \<Rightarrow> extracted_color" where
  "color_entry lib img all_labels filtered_labels ic =
     (case ic of (i, (r, g, b)) \<Rightarrow>
        \<lparr>rgb = (r, g, b),
         hex = ''#'' @ format_02x r @ format_02x g @ format_02x b,
         percentage = cluster_percentage filtered_labels i (length filtered_labels),
         hsv = rgb_to_hsv lib (fdiv (double_of_int r) 255) (fdiv (double_of_int g) 255)
                 (fdiv (double_of_int b) 255),
         brightness = fdiv (double_of_int (r + g + b)) 3,
         location_info = analyze_color_location (img_height img) (img_width img) all_labels i\<rparr>)"

text \<open>
  \<open>extract_dominant_colors\<close>. \<^verbatim>\<open>list.sort(key=..., reverse=True)\<close> is stable: it
  reverses the list, sorts ascending and reverses again.
\<close>

definition extract_dominant_colors ::
  "library \<Rightarrow> exn + img_array \<Rightarrow> int \<Rightarrow> extracted_color list" where
  "extract_dominant_colors lib loaded_image num_colors =
     (case loaded_image of
        Inl e \<Rightarrow> []
      | Inr img \<Rightarrow>
          (case kmeans_fit lib num_colors (clustering_input img num_colors) of
             Inl e \<Rightarrow> []
           | Inr km \<Rightarrow>
               let colors = map (\<lambda>(x, y, z). (astype_int x, astype_int y, astype_int z))
                              (km_cluster_centers km)
               in (case kmeans_predict lib km (img_pixels img) of
                     Inl e \<Rightarrow> []
                   | Inr all_labels \<Rightarrow>
                       let filtered_labels = km_labels km;
                           color_info = map (color_entry lib img all_labels filtered_labels)
                                          (List.enumerate 0 colors)
                       in rev (sort_key percentage (rev color_info)))))"

section \<open>The pencil catalogue (pencil_database.py)\<close>

text \<open>A row of a brand's table: \<^verbatim>\<open>{"name": ..., "code": ..., "rgb": ...}\<close>.\<close>

record pencil_row =
  row_name :: string
  row_code :: string
  row_rgb :: rgb

text \<open>A row of the frame the accessors return, with its \<open>brand\<close> column.\<close>

record pencil =
  p_brand :: string
  p_name :: string
  p_code :: string
  p_rgb :: rgb

record pencil_db =
  prismacolor_pencils :: "pencil_row list"
  faber_castell_pencils :: "pencil_row list"
  caran_dache_pencils :: "pencil_row list"
  derwent_pencils :: "pencil_row list"
  staedtler_pencils :: "pencil_row list"
  koh_i_noor_pencils :: "pencil_row list"

text \<open>\<^verbatim>\<open>df = table.copy(); df['brand'] = b\<close>\<close>

definition with_brand :: "string \<Rightarrow> pencil_row list \<Rightarrow> pencil list" where
  "with_brand b rows =
     map (\<lambda>r. \<lparr>p_brand = b, p_name = row_name r, p_code = row_code r, p_rgb = row_rgb r\<rparr>) rows"

definition get_prismacolor_pencils :: "pencil_db \<Rightarrow> pencil list" where
  "get_prismacolor_pencils db = with_brand ''Prismacolor'' (prismacolor_pencils db)"

definition get_faber_castell_pencils :: "pencil_db \<Rightarrow> pencil list" where
  "get_faber_castell_pencils db = with_brand ''Faber Castell'' (faber_castell_pencils db)"

definition get_all_pencils :: "pencil_db \<Rightarrow> pencil list" where
  "get_all_pencils db =
     with_brand ''Prismacolor'' (prismacolor_pencils db) @
     with_brand ''Faber Castell'' (faber_castell_pencils db) @
     with_brand (''Caran d'' @ [CHR 0x27] @ ''Ache'') (caran_dache_pencils db) @
     with_brand ''Derwent'' (derwent_pencils db) @
     with_brand ''Staedtler'' (staedtler_pencils db) @
     with_brand ''Koh-I-Noor'' (koh_i_noor_pencils db)"

section \<open>Matching (color_matcher.py)\<close>

record match =
  brand :: string
  name :: string
  code :: string
  pencil_rgb :: rgb
  target_rgb :: rgb
  color_difference :: real

definition match_info :: "rgb \<Rightarrow> pencil \<Rightarrow> match" where
  "match_info target p =
     \<lparr>brand = p_brand p, name = p_name p, code = p_code p, pencil_rgb = p_rgb p,
      target_rgb = target, color_difference = calculate_color_difference target (p_rgb p)\<rparr>"

text \<open>
  The slice \<^verbatim>\<open>xs[:n]\<close>: the first \<open>n\<close> elements, and for a negative \<open>n\<close> all but the
  last \<open>-n\<close>.
\<close>

definition slice_to :: "int \<Rightarrow> 'a list \<Rightarrow> 'a list" where
  "slice_to n xs = (if 0 \<le> n then take (nat n) xs else take (length xs - nat (- n)) xs)"

text \<open>
  The loop of \<open>find_matches\<close> appends, in catalogue order, a match for each pencil
  whose difference is within the threshold; \<open>list.sort\<close> with a key is stable, as
  \<open>sort_key\<close> is.
\<close>

definition within_threshold :: "rgb \<Rightarrow> real \<Rightarrow> pencil list \<Rightarrow> match list" where
  "within_threshold target max_difference ps =
     filter (\<lambda>m. color_difference m \<le> max_difference) (map (match_info target) ps)"

definition find_matches :: "pencil_db \<Rightarrow> rgb \<Rightarrow> int \<Rightarrow> real \<Rightarrow> match list" where
  "find_matches db target max_matches max_difference =
     (let matches = sort_key color_difference
                      (within_threshold target max_difference (get_all_pencils db));
          prismacolor_matches =
            slice_to max_matches (filter (\<lambda>m. brand m = ''Prismacolor'') matches);
          faber_castell_matches =
            slice_to max_matches (filter (\<lambda>m. brand m = ''Faber Castell'') matches)
      in prismacolor_matches @ faber_castell_matches)"

text \<open>
  \<open>find_best_match\<close>: the table to scan, then a linear scan keeping the first strictly
  smaller difference. \<open>min_difference\<close> starts as \<^verbatim>\<open>float('inf')\<close>, written \<open>None\<close>.
  \<^verbatim>\<open>if brand:\<close> is false for \<open>None\<close> and for the empty string.
\<close>

definition select_pencils :: "pencil_db \<Rightarrow> string option \<Rightarrow> pencil list" where
  "select_pencils db brand_filter =
     (case brand_filter of
        None \<Rightarrow> get_all_pencils db
      | Some b \<Rightarrow>
          if b \<noteq> [] then
            (if b = ''Prismacolor'' then get_prismacolor_pencils db
             else if b = ''Faber Castell'' then get_faber_castell_pencils db
             else get_all_pencils db)
          else get_all_pencils db)"

definition below :: "real \<Rightarrow> real option \<Rightarrow> bool" where
  "below d min_difference = (case min_difference of None \<Rightarrow> True | Some m \<Rightarrow> d < m)"

fun best_scan :: "rgb \<Rightarrow> pencil list \<Rightarrow> match option \<times> real option \<Rightarrow> match option \<times> real option" where
  "best_scan target [] st = st"
| "best_scan target (p # ps) (best_match, min_difference) =
     (let color_diff = calculate_color_difference target (p_rgb p)
      in if below color_diff min_difference
         then best_scan target ps (Some (match_info target p), Some color_diff)
         else best_scan target ps (best_match, min_difference))"

definition find_best_match :: "pencil_db \<Rightarrow> rgb \<Rightarrow> string option \<Rightarrow> match option" where
  "find_best_match db target brand_filter =
     fst (best_scan target (select_pencils db brand_filter) (None, None))"

section \<open>Example data\<close>

text \<open>
  A catalogue with one Prismacolor pencil (White, PC938), one Faber Castell pencil
  (Black, FC199) and one Derwent pencil (Chinese White, 72), taken from the tables of the
  source.
\<close>

definition example_db :: pencil_db where
  "example_db =
     \<lparr>prismacolor_pencils = [\<lparr>row_name = ''White'', row_code = ''PC938'', row_rgb = (255, 255, 255)\<rparr>],
      faber_castell_pencils = [\<lparr>row_name = ''Black'', row_code = ''FC199'', row_rgb = (0, 0, 0)\<rparr>],
      caran_dache_pencils = [],
      derwent_pencils = [\<lparr>row_name = ''Chinese White'', row_code = ''72'', row_rgb = (255, 255, 255)\<rparr>],
      staedtler_pencils = [],
      koh_i_noor_pencils = []\<rparr>"

definition prismacolor_white :: pencil where
  "prismacolor_white =
     \<lparr>p_brand = ''Prismacolor'', p_name = ''White'', p_code = ''PC938'', p_rgb = (255, 255, 255)\<rparr>"

definition faber_castell_black :: pencil where
  "faber_castell_black =
     \<lparr>p_brand = ''Faber Castell'', p_name = ''Black'', p_code = ''FC199'', p_rgb = (0, 0, 0)\<rparr>"

text \<open>
  A catalogue with one Prismacolor pencil (Black, PC935) and one Derwent pencil
  (Chinese White, 72), both taken from the tables of the source.
\<close>

definition example_db2 :: pencil_db where
  "example_db2 =
     \<lparr>prismacolor_pencils = [\<lparr>row_name = ''Black'', row_code = ''PC935'', row_rgb = (0, 0, 0)\<rparr>],
      faber_castell_pencils = [],
      caran_dache_pencils = [],
      derwent_pencils = [\<lparr>row_name = ''Chinese White'', row_code = ''72'', row_rgb = (255, 255, 255)\<rparr>],
      staedtler_pencils = [],
      koh_i_noor_pencils = []\<rparr>"

definition prismacolor_black :: pencil where
  "prismacolor_black =
     \<lparr>p_brand = ''Prismacolor'', p_name = ''Black'', p_code = ''PC935'', p_rgb = (0, 0, 0)\<rparr>"

definition derwent_white :: pencil where
  "derwent_white =
     \<lparr>p_brand = ''Derwent'', p_name = ''Chinese White'', p_code = ''72'', p_rgb = (255, 255, 255)\<rparr>"


text \<open>
  A stand-in for the library calls, for an image of one pixel: \<open>fit\<close> with one cluster
  returns that pixel as the centre and raises for any other number of clusters,
  \<open>predict\<close> puts every pixel in cluster 0.
\<close>

definition stub_library :: library where
  "stub_library =
     \<lparr>kmeans_fit = (\<lambda>k pixels.
         if k = 1 then Inr \<lparr>km_cluster_centers = [(200, 30, 40)], km_labels = [0]\<rparr>
         else Inl Exception),
      kmeans_predict = (\<lambda>km pixels. Inr (map (\<lambda>p. 0) pixels)),
      rgb_to_hsv = (\<lambda>r g b. (0, 0, 0))\<rparr>"

definition one_pixel :: img_array where
  "one_pixel = \<lparr>img_height = 1, img_width = 1, img_pixels = [(200, 30, 40)]\<rparr>"

text \<open>
  A second stand-in for the library calls, for an image of eight pixels and three
  clusters: \<open>fit\<close> returns three centres and the label of each of the eight pixels (one
  pixel in cluster 0, two in cluster 1, five in cluster 2) and raises for any other
  request; \<open>predict\<close> returns the labels of the fitted model.
\<close>

definition three_clusters :: kmeans where
  "three_clusters =
     \<lparr>km_cluster_centers = [(200.7, 30.2, 40.9), (10.5, 120.3, 60.0), (90.1, 90.2, 200.8)],
      km_labels = [2, 2, 0, 2, 1, 2, 1, 2]\<rparr>"

definition three_cluster_library :: library where
  "three_cluster_library =
     \<lparr>kmeans_fit = (\<lambda>k pixels. if k = 3 \<and> length pixels = 8 then Inr three_clusters
                                  else Inl Exception),
      kmeans_predict = (\<lambda>km pixels. Inr (km_labels km)),
      rgb_to_hsv = (\<lambda>r g b. (0, 0, 0))\<rparr>"

definition eight_pixels :: img_array where
  "eight_pixels =
     \<lparr>img_height = 2, img_width = 4,
      img_pixels = [(90, 90, 201), (90, 91, 200), (200, 30, 41), (91, 90, 201),
                    (10, 120, 60), (90, 90, 200), (11, 121, 60), (90, 89, 201)]\<rparr>"

section \<open>Slices\<close>

lemma set_slice_to: "set (slice_to n xs) \<subseteq> set xs"
  by (simp add: slice_to_def set_take_subset)

lemma length_slice_to: "0 \<le> n \<Longrightarrow> length (slice_to n xs) \<le> nat n"
  by (simp add: slice_to_def)

lemma sorted_slice_to: "sorted (map f xs) \<Longrightarrow> sorted (map f (slice_to n xs))"
  by (simp add: slice_to_def take_map [symmetric] sorted_wrt_take del: take_map)

section \<open>Properties of the colour difference\<close>

lemma ccd_same: "calculate_color_difference c c = 0"
  by (cases c) (simp add: calculate_color_difference_def split: prod.splits)

lemma ccd_nonneg: "0 \<le> calculate_color_difference a b"
  by (simp add: calculate_color_difference_def split: prod.splits)

lemma lab_black: "rgb_to_lab (0, 0, 0) = (0, 0, 0)"
  by (simp add: rgb_to_lab_def gamma_correct_def lab_f_def)

lemma gamma_one: "gamma_correct 1 = 1"
  by (simp add: gamma_correct_def)

lemma lab_white:
  "rgb_to_lab (255, 255, 255) =
     (116 * (1.0000001 powr (1 / 3)) - 16,
      500 * (1 - 1.0000001 powr (1 / 3)),
      200 * (1.0000001 powr (1 / 3) - 1))"
  by (simp add: rgb_to_lab_def gamma_one lab_f_def Let_def)

lemma cbrt_near_one: "1 \<le> (1.0000001::real) powr (1 / 3)" "(1.0000001::real) powr (1 / 3) \<le> 1.0000001"
proof -
  show "1 \<le> (1.0000001::real) powr (1 / 3)"
    by (rule ge_one_powr_ge_zero) simp_all
  have "(1.0000001::real) powr (1 / 3) \<le> 1.0000001 powr 1"
    by (rule powr_mono) simp_all
  then show "(1.0000001::real) powr (1 / 3) \<le> 1.0000001" by simp
qed

lemma ccd_black_white:
  "100 \<le> calculate_color_difference (0, 0, 0) (255, 255, 255)"
  "calculate_color_difference (0, 0, 0) (255, 255, 255) \<le> 101"
proof -
  define r :: real where "r = 1.0000001 powr (1 / 3)"
  have r1: "1 \<le> r" and r2: "r \<le> 1.0000001"
    using cbrt_near_one by (simp_all add: r_def)
  define S where "S = (0 - (116 * r - 16))\<^sup>2 + (0 - 500 * (1 - r))\<^sup>2 + (0 - 200 * (r - 1))\<^sup>2"
  have d: "calculate_color_difference (0, 0, 0) (255, 255, 255) = sqrt S"
    by (simp add: calculate_color_difference_def lab_black lab_white r_def S_def
          power2_eq_square algebra_simps)
  have a: "100 \<le> 116 * r - 16" "116 * r - 16 \<le> 100.1" using r1 r2 by simp_all
  have a2: "100\<^sup>2 \<le> (116 * r - 16)\<^sup>2" "(116 * r - 16)\<^sup>2 \<le> 100.1\<^sup>2"
    using a by (intro power_mono; simp)+
  have b: "\<bar>500 * (1 - r)\<bar> \<le> 1" "\<bar>200 * (r - 1)\<bar> \<le> 1" using r1 r2 by simp_all
  have b2: "(500 * (1 - r))\<^sup>2 \<le> 1" "(200 * (r - 1))\<^sup>2 \<le> 1"
    using b by (simp_all add: abs_square_le_1)
  have S': "S = (116 * r - 16)\<^sup>2 + (500 * (1 - r))\<^sup>2 + (200 * (r - 1))\<^sup>2"
    unfolding S_def by (simp add: power2_eq_square algebra_simps)
  have lo: "100\<^sup>2 \<le> S"
    unfolding S' using a2(1) zero_le_power2 [of "500 * (1 - r)"] zero_le_power2 [of "200 * (r - 1)"]
    by linarith
  have hi: "S \<le> 101\<^sup>2"
    unfolding S' using a2(2) b2 by (simp add: power2_eq_square)
  show "100 \<le> calculate_color_difference (0, 0, 0) (255, 255, 255)"
    unfolding d using lo real_le_rsqrt by simp
  show "calculate_color_difference (0, 0, 0) (255, 255, 255) \<le> 101"
    unfolding d using hi real_le_lsqrt by simp
qed

section \<open>Properties of find_matches\<close>

lemma slice_to_mem: "m \<in> set (slice_to n xs) \<Longrightarrow> m \<in> set xs"
  using set_slice_to by fastforce

lemma brand_within: "m \<in> set (within_threshold t d ps) \<Longrightarrow> color_difference m \<le> d"
  by (simp add: within_threshold_def)

text \<open>
  C2. Whatever the target, the catalogue and the two parameters, every match returned by
  \<open>find_matches\<close> carries the brand \<open>Prismacolor\<close> or the brand \<open>Faber Castell\<close>:
  the result is built from these two brand filters only, so pencils of the four other
  brands never appear in it.
\<close>

theorem find_matches_only_two_brands:
  "(\<forall>m \<in> set (find_matches db target max_matches max_difference).
      brand m = ''Prismacolor'' \<or> brand m = ''Faber Castell'') \<and>
   (\<forall>p \<in> set (get_all_pencils db).
      p_brand p \<noteq> ''Prismacolor'' \<and> p_brand p \<noteq> ''Faber Castell'' \<longrightarrow>
      match_info target p \<notin> set (find_matches db target max_matches max_difference))"
proof -
  have two: "brand m = ''Prismacolor'' \<or> brand m = ''Faber Castell''"
    if "m \<in> set (find_matches db target max_matches max_difference)" for m
    using that by (auto simp: find_matches_def Let_def dest: slice_to_mem)
  have "match_info target p \<notin> set (find_matches db target max_matches max_difference)"
    if "p_brand p \<noteq> ''Prismacolor'' \<and> p_brand p \<noteq> ''Faber Castell''" for p
    using two [of "match_info target p"] that by (auto simp: match_info_def)
  then show ?thesis using two by blast
qed

text \<open>
  C3. For a non-negative \<open>max_matches\<close>, no match returned by \<open>find_matches\<close> has a
  difference above \<open>max_difference\<close>, and for every brand name the result holds at most
  \<open>max_matches\<close> entries of that brand.
\<close>

theorem find_matches_threshold_and_cap:
  assumes "0 \<le> max_matches"
  shows "(\<forall>m \<in> set (find_matches db target max_matches max_difference).
            color_difference m \<le> max_difference) \<and>
         (\<forall>b. length (filter (\<lambda>m. brand m = b)
                 (find_matches db target max_matches max_difference)) \<le> nat max_matches)"
proof (intro conjI ballI allI)
  fix m assume "m \<in> set (find_matches db target max_matches max_difference)"
  then have "m \<in> set (within_threshold target max_difference (get_all_pencils db))"
    by (auto simp: find_matches_def Let_def dest: slice_to_mem)
  then show "color_difference m \<le> max_difference" by (rule brand_within)
next
  fix b
  define ms where "ms = sort_key color_difference
                      (within_threshold target max_difference (get_all_pencils db))"
  define A where "A = slice_to max_matches (filter (\<lambda>m. brand m = ''Prismacolor'') ms)"
  define B where "B = slice_to max_matches (filter (\<lambda>m. brand m = ''Faber Castell'') ms)"
  have r: "find_matches db target max_matches max_difference = A @ B"
    by (simp add: find_matches_def Let_def A_def B_def ms_def)
  have bA: "\<forall>m \<in> set A. brand m = ''Prismacolor''"
    by (auto simp: A_def dest: slice_to_mem)
  have bB: "\<forall>m \<in> set B. brand m = ''Faber Castell''"
    by (auto simp: B_def dest: slice_to_mem)
  have lA: "length A \<le> nat max_matches" and lB: "length B \<le> nat max_matches"
    using assms by (simp_all add: A_def B_def length_slice_to)
  have fA: "b \<noteq> ''Prismacolor'' \<Longrightarrow> filter (\<lambda>m. brand m = b) A = []"
    using bA by (auto simp: filter_empty_conv)
  have fB: "b \<noteq> ''Faber Castell'' \<Longrightarrow> filter (\<lambda>m. brand m = b) B = []"
    using bB by (auto simp: filter_empty_conv)
  have le: "length (filter (\<lambda>m. brand m = b) A) \<le> nat max_matches"
           "length (filter (\<lambda>m. brand m = b) B) \<le> nat max_matches"
    using lA lB order_trans [OF length_filter_le] by blast+
  show "length (filter (\<lambda>m. brand m = b) (find_matches db target max_matches max_difference))
          \<le> nat max_matches"
  proof (cases "b = ''Prismacolor''")
    case True
    then have "b \<noteq> ''Faber Castell''" by simp
    then show ?thesis using fB le(1) by (simp add: r)
  next
    case False
    then show ?thesis using fA le(2) by (simp add: r)
  qed
qed

text \<open>
  C1, as the code has it. The result of \<open>find_matches\<close> is its Prismacolor entries
  followed by its Faber Castell entries, and each of the two runs is sorted ascending by
  \<open>color_difference\<close>.
\<close>

theorem find_matches_sorted_per_brand:
  "find_matches db target max_matches max_difference =
     filter (\<lambda>m. brand m = ''Prismacolor'') (find_matches db target max_matches max_difference) @
     filter (\<lambda>m. brand m = ''Faber Castell'') (find_matches db target max_matches max_difference)
   \<and> sorted (map color_difference
        (filter (\<lambda>m. brand m = ''Prismacolor'') (find_matches db target max_matches max_difference)))
   \<and> sorted (map color_difference
        (filter (\<lambda>m. brand m = ''Faber Castell'') (find_matches db target max_matches max_difference)))"
proof -
  define ms where "ms = sort_key color_difference
                      (within_threshold target max_difference (get_all_pencils db))"
  define A where "A = slice_to max_matches (filter (\<lambda>m. brand m = ''Prismacolor'') ms)"
  define B where "B = slice_to max_matches (filter (\<lambda>m. brand m = ''Faber Castell'') ms)"
  have r: "find_matches db target max_matches max_difference = A @ B"
    by (simp add: find_matches_def Let_def A_def B_def ms_def)
  have bA: "\<forall>m \<in> set A. brand m = ''Prismacolor''"
    by (auto simp: A_def dest: slice_to_mem)
  have bB: "\<forall>m \<in> set B. brand m = ''Faber Castell''"
    by (auto simp: B_def dest: slice_to_mem)
  have fA: "filter (\<lambda>m. brand m = ''Prismacolor'') (A @ B) = A"
    using bA bB by (auto simp: filter_empty_conv filter_id_conv)
  have fB: "filter (\<lambda>m. brand m = ''Faber Castell'') (A @ B) = B"
    using bA bB by (auto simp: filter_empty_conv filter_id_conv)
  have sms: "sorted (map color_difference ms)" by (simp add: ms_def)
  have sA: "sorted (map color_difference A)"
    unfolding A_def by (intro sorted_slice_to sorted_filter sms)
  have sB: "sorted (map color_difference B)"
    unfolding B_def by (intro sorted_slice_to sorted_filter sms)
  show ?thesis unfolding r fA fB using sA sB by simp
qed

lemma example_all:
  "get_all_pencils example_db = [prismacolor_white, faber_castell_black, derwent_white]"
  by (simp add: get_all_pencils_def example_db_def with_brand_def prismacolor_white_def
      faber_castell_black_def derwent_white_def)

lemma example_differences:
  "color_difference (match_info (0, 0, 0) prismacolor_white) =
     calculate_color_difference (0, 0, 0) (255, 255, 255)"
  "color_difference (match_info (0, 0, 0) faber_castell_black) = 0"
  "brand (match_info (0, 0, 0) prismacolor_white) = ''Prismacolor''"
  "brand (match_info (0, 0, 0) faber_castell_black) = ''Faber Castell''"
  "color_difference (match_info (0, 0, 0) derwent_white) =
     calculate_color_difference (0, 0, 0) (255, 255, 255)"
  "brand (match_info (0, 0, 0) derwent_white) = ''Derwent''"
  by (simp_all add: match_info_def prismacolor_white_def faber_castell_black_def
      derwent_white_def ccd_same)

lemma find_matches_example:
  "find_matches example_db (0, 0, 0) 5 200 =
     [match_info (0, 0, 0) prismacolor_white, match_info (0, 0, 0) faber_castell_black]"
proof -
  have w: "within_threshold (0, 0, 0) 200 (get_all_pencils example_db) =
           [match_info (0, 0, 0) prismacolor_white, match_info (0, 0, 0) faber_castell_black,
            match_info (0, 0, 0) derwent_white]"
    using ccd_black_white(2) by (simp add: within_threshold_def example_all example_differences)
  have s: "sort_key color_difference
             [match_info (0, 0, 0) prismacolor_white, match_info (0, 0, 0) faber_castell_black,
              match_info (0, 0, 0) derwent_white] =
           [match_info (0, 0, 0) faber_castell_black, match_info (0, 0, 0) prismacolor_white,
            match_info (0, 0, 0) derwent_white]"
    using ccd_black_white(1) by (simp add: example_differences)
  show ?thesis
    by (simp add: find_matches_def Let_def w s example_differences slice_to_def)
qed

text \<open>
  C1 as stated fails: with a white Prismacolor pencil and a black Faber Castell pencil,
  the matches for black within 200 are the white Prismacolor pencil (difference about 100)
  and then the black Faber Castell pencil (difference 0).
\<close>

theorem find_matches_not_sorted:
  "\<not> sorted (map color_difference (find_matches example_db (0, 0, 0) 5 200))"
  using ccd_black_white(1) by (simp add: find_matches_example example_differences)

text \<open>C2 at the example catalogue.\<close>

theorem find_matches_only_two_brands_witness:
  "match_info (0, 0, 0) prismacolor_white \<in> set (find_matches example_db (0, 0, 0) 5 200) \<and>
   (brand (match_info (0, 0, 0) prismacolor_white) = ''Prismacolor'' \<or>
    brand (match_info (0, 0, 0) prismacolor_white) = ''Faber Castell'') \<and>
   derwent_white \<in> set (get_all_pencils example_db) \<and>
   p_brand derwent_white \<noteq> ''Prismacolor'' \<and> p_brand derwent_white \<noteq> ''Faber Castell'' \<and>
   match_info (0, 0, 0) derwent_white \<notin> set (find_matches example_db (0, 0, 0) 5 200)"
proof -
  have mem: "match_info (0, 0, 0) prismacolor_white \<in> set (find_matches example_db (0, 0, 0) 5 200)"
    by (simp add: find_matches_example)
  have d: "derwent_white \<in> set (get_all_pencils example_db)"
    "p_brand derwent_white \<noteq> ''Prismacolor'' \<and> p_brand derwent_white \<noteq> ''Faber Castell''"
    by (simp_all add: example_all derwent_white_def)
  note t = find_matches_only_two_brands [of example_db "(0, 0, 0)" 5 200]
  from t mem have "brand (match_info (0, 0, 0) prismacolor_white) = ''Prismacolor'' \<or>
    brand (match_info (0, 0, 0) prismacolor_white) = ''Faber Castell''" by blast
  moreover from t d
  have "match_info (0, 0, 0) derwent_white \<notin> set (find_matches example_db (0, 0, 0) 5 200)"
    by blast
  ultimately show ?thesis using mem d by blast
qed

text \<open>C3 at the example catalogue.\<close>

theorem find_matches_threshold_and_cap_witness:
  "(0::int) \<le> 5 \<and>
   match_info (0, 0, 0) faber_castell_black \<in> set (find_matches example_db (0, 0, 0) 5 200) \<and>
   color_difference (match_info (0, 0, 0) faber_castell_black) \<le> 200 \<and>
   length (filter (\<lambda>m. brand m = ''Faber Castell'') (find_matches example_db (0, 0, 0) 5 200)) \<le> nat 5"
proof -
  have h: "(0::int) \<le> 5" by simp
  have mem: "match_info (0, 0, 0) faber_castell_black \<in> set (find_matches example_db (0, 0, 0) 5 200)"
    by (simp add: find_matches_example)
  note t = find_matches_threshold_and_cap [OF h, of example_db "(0, 0, 0)" 200]
  from t have "color_difference (match_info (0, 0, 0) faber_castell_black) \<le> 200"
    using mem by blast
  moreover from t have "length (filter (\<lambda>m. brand m = ''Faber Castell'')
      (find_matches example_db (0, 0, 0) 5 200)) \<le> nat 5" by blast
  ultimately show ?thesis using h mem by simp
qed

section \<open>Properties of find_best_match\<close>

lemma best_scan_started:
  "\<exists>p \<in> insert p0 (set ps).
     best_scan target ps
       (Some (match_info target p0), Some (calculate_color_difference target (p_rgb p0))) =
       (Some (match_info target p), Some (calculate_color_difference target (p_rgb p))) \<and>
     (\<forall>q \<in> insert p0 (set ps).
        calculate_color_difference target (p_rgb p) \<le> calculate_color_difference target (p_rgb q))"
proof (induction ps arbitrary: p0)
  case Nil
  then show ?case by simp
next
  case (Cons a ps)
  show ?case
  proof (cases "calculate_color_difference target (p_rgb a) < calculate_color_difference target (p_rgb p0)")
    case True
    from Cons.IH [of a] obtain p where p: "p \<in> insert a (set ps)"
      "best_scan target ps
         (Some (match_info target a), Some (calculate_color_difference target (p_rgb a))) =
         (Some (match_info target p), Some (calculate_color_difference target (p_rgb p)))"
      "\<forall>q \<in> insert a (set ps).
        calculate_color_difference target (p_rgb p) \<le> calculate_color_difference target (p_rgb q)"
      by blast
    have "calculate_color_difference target (p_rgb p) \<le> calculate_color_difference target (p_rgb p0)"
      using p(3) True by force
    then show ?thesis using p True by (auto simp: below_def Let_def)
  next
    case False
    from Cons.IH [of p0] obtain p where p: "p \<in> insert p0 (set ps)"
      "best_scan target ps
         (Some (match_info target p0), Some (calculate_color_difference target (p_rgb p0))) =
         (Some (match_info target p), Some (calculate_color_difference target (p_rgb p)))"
      "\<forall>q \<in> insert p0 (set ps).
        calculate_color_difference target (p_rgb p) \<le> calculate_color_difference target (p_rgb q)"
      by blast
    have "calculate_color_difference target (p_rgb p) \<le> calculate_color_difference target (p_rgb a)"
      using p(3) False by force
    then show ?thesis using p False by (auto simp: below_def Let_def)
  qed
qed

lemma best_scan_nonempty:
  assumes "ps \<noteq> []"
  shows "\<exists>p \<in> set ps.
           fst (best_scan target ps (None, None)) = Some (match_info target p) \<and>
           (\<forall>q \<in> set ps.
              calculate_color_difference target (p_rgb p) \<le> calculate_color_difference target (p_rgb q))"
proof -
  from assms obtain a as where ps: "ps = a # as" by (cases ps) auto
  from best_scan_started [of a as target] show ?thesis
    by (auto simp: ps below_def Let_def)
qed

lemma color_difference_match_info:
  "color_difference (match_info target p) = calculate_color_difference target (p_rgb p)"
  by (simp add: match_info_def)

lemma select_pencils_cases:
  "select_pencils db (Some ''Prismacolor'') = get_prismacolor_pencils db"
  "select_pencils db (Some ''Faber Castell'') = get_faber_castell_pencils db"
  "brand_filter \<noteq> Some ''Prismacolor'' \<Longrightarrow> brand_filter \<noteq> Some ''Faber Castell'' \<Longrightarrow>
     select_pencils db brand_filter = get_all_pencils db"
  by (auto simp: select_pencils_def split: option.splits)

text \<open>
  C9, as the code has it. \<open>find_best_match\<close> scans one table: the Prismacolor table for
  the brand \<open>Prismacolor\<close>, the Faber Castell table for the brand \<open>Faber Castell\<close>, and
  the whole catalogue for no brand or any other brand name. It returns none exactly when
  that table is empty, and otherwise a match for a pencil of that table whose
  \<open>color_difference\<close> is minimal in the table.
\<close>

theorem find_best_match_scanned_table:
  "(find_best_match db target brand_filter = None \<longleftrightarrow> select_pencils db brand_filter = []) \<and>
   (select_pencils db brand_filter \<noteq> [] \<longrightarrow>
      (\<exists>p \<in> set (select_pencils db brand_filter).
         find_best_match db target brand_filter = Some (match_info target p) \<and>
         (\<forall>q \<in> set (select_pencils db brand_filter).
            color_difference (match_info target p) \<le> color_difference (match_info target q)))) \<and>
   select_pencils db brand_filter =
     (if brand_filter = Some ''Prismacolor'' then get_prismacolor_pencils db
      else if brand_filter = Some ''Faber Castell'' then get_faber_castell_pencils db
      else get_all_pencils db)"
proof (intro conjI impI)
  show "find_best_match db target brand_filter = None \<longleftrightarrow> select_pencils db brand_filter = []"
  proof (cases "select_pencils db brand_filter = []")
    case True
    then show ?thesis by (simp add: find_best_match_def)
  next
    case False
    from best_scan_nonempty [OF False, of target] show ?thesis
      using False by (auto simp: find_best_match_def)
  qed
next
  assume "select_pencils db brand_filter \<noteq> []"
  from best_scan_nonempty [OF this, of target]
  show "\<exists>p \<in> set (select_pencils db brand_filter).
         find_best_match db target brand_filter = Some (match_info target p) \<and>
         (\<forall>q \<in> set (select_pencils db brand_filter).
            color_difference (match_info target p) \<le> color_difference (match_info target q))"
    by (simp add: find_best_match_def color_difference_match_info)
next
  show "select_pencils db brand_filter =
     (if brand_filter = Some ''Prismacolor'' then get_prismacolor_pencils db
      else if brand_filter = Some ''Faber Castell'' then get_faber_castell_pencils db
      else get_all_pencils db)"
    by (simp add: select_pencils_cases)
qed

lemma example2_all: "get_all_pencils example_db2 = [prismacolor_black, derwent_white]"
  by (simp add: get_all_pencils_def example_db2_def with_brand_def prismacolor_black_def
      derwent_white_def)

lemma example2_scan:
  "find_best_match example_db2 (0, 0, 0) (Some ''Derwent'') = Some (match_info (0, 0, 0) prismacolor_black)"
  using ccd_nonneg [of "(0, 0, 0)" "(255, 255, 255)"]
  by (simp add: find_best_match_def select_pencils_def example2_all below_def ccd_same
      prismacolor_black_def derwent_white_def)

text \<open>
  C9 as stated fails: in a catalogue holding a Derwent pencil, the best match for black
  under the brand filter \<open>Derwent\<close> is the Prismacolor pencil Black; and the catalogue is
  not empty, yet the filter \<open>Faber Castell\<close> gives none.
\<close>

theorem find_best_match_ignores_other_brand:
  "derwent_white \<in> set (get_all_pencils example_db2) \<and>
   find_best_match example_db2 (0, 0, 0) (Some ''Derwent'') = Some (match_info (0, 0, 0) prismacolor_black) \<and>
   brand (match_info (0, 0, 0) prismacolor_black) = ''Prismacolor'' \<and>
   find_best_match example_db2 (0, 0, 0) (Some ''Faber Castell'') = None"
proof -
  have "find_best_match example_db2 (0, 0, 0) (Some ''Faber Castell'') = None"
    by (simp add: find_best_match_def select_pencils_def get_faber_castell_pencils_def
        with_brand_def example_db2_def)
  moreover have "brand (match_info (0, 0, 0) prismacolor_black) = ''Prismacolor''"
    by (simp add: match_info_def prismacolor_black_def)
  ultimately show ?thesis by (simp add: example2_all example2_scan)
qed

text \<open>
  C9, as the code has it, at the example catalogue.
\<close>

theorem find_best_match_scanned_table_witness:
  "select_pencils example_db2 (Some ''Derwent'') \<noteq> [] \<and>
   prismacolor_black \<in> set (select_pencils example_db2 (Some ''Derwent'')) \<and>
   find_best_match example_db2 (0, 0, 0) (Some ''Derwent'') \<noteq> None \<and>
   (\<exists>p \<in> set (select_pencils example_db2 (Some ''Derwent'')).
      find_best_match example_db2 (0, 0, 0) (Some ''Derwent'') = Some (match_info (0, 0, 0) p) \<and>
      color_difference (match_info (0, 0, 0) p) \<le> color_difference (match_info (0, 0, 0) prismacolor_black))"
proof -
  have ne: "select_pencils example_db2 (Some ''Derwent'') \<noteq> []"
    and mem: "prismacolor_black \<in> set (select_pencils example_db2 (Some ''Derwent''))"
    by (simp_all add: select_pencils_def example2_all)
  note t = find_best_match_scanned_table [of example_db2 "(0, 0, 0)" "Some ''Derwent''"]
  from t ne have a: "find_best_match example_db2 (0, 0, 0) (Some ''Derwent'') \<noteq> None" by blast
  from t ne mem have b: "\<exists>p \<in> set (select_pencils example_db2 (Some ''Derwent'')).
      find_best_match example_db2 (0, 0, 0) (Some ''Derwent'') = Some (match_info (0, 0, 0) p) \<and>
      color_difference (match_info (0, 0, 0) p) \<le> color_difference (match_info (0, 0, 0) prismacolor_black)"
    by blast
  from ne mem a b show ?thesis by blast
qed

section \<open>The colour difference is a metric on colours\<close>
















section \<open>Properties of rounding to a double\<close>

lemma rhe_int [simp]: "round_half_even (of_int n) = n"
  by (simp add: round_half_even_def)

lemma rhe_bounds: "\<lfloor>m\<rfloor> \<le> round_half_even m" "round_half_even m \<le> \<lceil>m\<rceil>"
proof -
  show "\<lfloor>m\<rfloor> \<le> round_half_even m" by (simp add: round_half_even_def Let_def)
  show "round_half_even m \<le> \<lceil>m\<rceil>"
  proof (cases "m = of_int \<lfloor>m\<rfloor>")
    case True
    then obtain n where "m = of_int n" ..
    then show ?thesis by simp
  next
    case False
    then have "\<lceil>m\<rceil> = \<lfloor>m\<rfloor> + 1" by (simp add: ceiling_altdef)
    then show ?thesis by (simp add: round_half_even_def Let_def)
  qed
qed

lemma rhe_le: "m \<le> of_int M \<Longrightarrow> round_half_even m \<le> M"
  using rhe_bounds(2) [of m] by (meson ceiling_le order_trans)

lemma rhe_ge: "of_int M \<le> m \<Longrightarrow> M \<le> round_half_even m"
  using rhe_bounds(1) [of m] by (meson le_floor_iff order_trans)

lemma rhe_mono: "a \<le> b \<Longrightarrow> round_half_even a \<le> round_half_even b"
proof -
  assume ab: "a \<le> b"
  show ?thesis
  proof (cases "\<lfloor>a\<rfloor> = \<lfloor>b\<rfloor>")
    case True
    then show ?thesis using ab by (auto simp: round_half_even_def Let_def)
  next
    case False
    then have "\<lfloor>a\<rfloor> < \<lfloor>b\<rfloor>" using ab floor_mono [of a b] by linarith
    then have "\<lfloor>a\<rfloor> + 1 \<le> \<lfloor>b\<rfloor>" by simp
    moreover have "round_half_even a \<le> \<lfloor>a\<rfloor> + 1"
      by (simp add: round_half_even_def Let_def)
    ultimately show ?thesis using rhe_bounds(1) [of b] by linarith
  qed
qed

lemma floor_log2_iff:
  assumes "0 < x"
  shows "\<lfloor>log 2 x\<rfloor> = k \<longleftrightarrow> 2 powi k \<le> x \<and> x < 2 powi (k + 1)"
proof -
  have p: "(2::real) powr (real_of_int j) = 2 powi j" for j :: int
    by (simp add: powr_real_of_int')
  have "\<lfloor>log 2 x\<rfloor> = k \<longleftrightarrow> 2 powr (real_of_int k) \<le> x \<and> x < 2 powr (real_of_int (k + 1))"
    using floor_log_eq_powr_iff [of x 2 k] assms by simp
  then show ?thesis unfolding p .
qed

lemma float_exponent_bounds:
  assumes "x \<noteq> 0"
  shows "2 powi (float_exponent x + 52) \<le> \<bar>x\<bar>" "\<bar>x\<bar> < 2 powi (float_exponent x + 53)"
proof -
  have pos: "0 < \<bar>x\<bar>" using assms by simp
  have k: "\<lfloor>log 2 \<bar>x\<bar>\<rfloor> = float_exponent x + 52" by (simp add: float_exponent_def)
  from floor_log2_iff [OF pos, of "float_exponent x + 52"] k
  have b: "2 powi (float_exponent x + 52) \<le> \<bar>x\<bar> \<and> \<bar>x\<bar> < 2 powi (float_exponent x + 52 + 1)"
    by blast
  have e: "float_exponent x + 52 + 1 = float_exponent x + 53" by simp
  from b show "2 powi (float_exponent x + 52) \<le> \<bar>x\<bar>" by blast
  from b show "\<bar>x\<bar> < 2 powi (float_exponent x + 53)" unfolding e by blast
qed

lemma float_exponent_eq:
  assumes "2 powi k \<le> \<bar>x\<bar>" "\<bar>x\<bar> < 2 powi (k + 1)"
  shows "float_exponent x = k - 52"
proof -
  have "0 < (2::real) powi k" by simp
  then have pos: "0 < \<bar>x\<bar>" using assms(1) by linarith
  have "\<lfloor>log 2 \<bar>x\<bar>\<rfloor> = k"
    using floor_log2_iff [OF pos, of k] assms by simp
  then show ?thesis by (simp add: float_exponent_def)
qed

lemma round_double_eval:
  assumes "2 powi k \<le> \<bar>x\<bar>" "\<bar>x\<bar> < 2 powi (k + 1)"
  shows "round_double x = of_int (round_half_even (x / 2 powi (k - 52))) * 2 powi (k - 52)"
proof -
  have "0 < (2::real) powi k" by simp
  then have "0 < \<bar>x\<bar>" using assms(1) by linarith
  then have "x \<noteq> 0" by simp
  then show ?thesis by (simp add: round_double_def float_exponent_eq [OF assms])
qed

lemma mantissa_bounds:
  assumes "0 < x"
  shows "2 ^ 52 \<le> x / 2 powi float_exponent x" "x / 2 powi float_exponent x < 2 ^ 53"
proof -
  have nz: "x \<noteq> 0" using assms by simp
  have P: "0 < (2::real) powi float_exponent x" by simp
  have a: "(2::real) powi (float_exponent x + 52) = 2 powi float_exponent x * 2 ^ 52"
    by (simp add: power_int_add)
  have b: "(2::real) powi (float_exponent x + 53) = 2 powi float_exponent x * 2 ^ 53"
    by (simp add: power_int_add)
  from float_exponent_bounds(1) [OF nz] assms
  have "2 powi float_exponent x * 2 ^ 52 \<le> x" unfolding a by simp
  then show "2 ^ 52 \<le> x / 2 powi float_exponent x"
    using P by (simp add: le_divide_eq mult.commute)
  from float_exponent_bounds(2) [OF nz] assms
  have "x < 2 powi float_exponent x * 2 ^ 53" unfolding b by simp
  then show "x / 2 powi float_exponent x < 2 ^ 53"
    using P by (simp add: divide_less_eq mult.commute)
qed

lemma rounded_mantissa_bounds:
  assumes "0 < x"
  shows "2 ^ 52 \<le> round_half_even (x / 2 powi float_exponent x)"
    "round_half_even (x / 2 powi float_exponent x) \<le> 2 ^ 53"
proof -
  have "real_of_int (2 ^ 52) \<le> x / 2 powi float_exponent x"
    using mantissa_bounds(1) [OF assms] by simp
  then show "2 ^ 52 \<le> round_half_even (x / 2 powi float_exponent x)" by (rule rhe_ge)
  have "x / 2 powi float_exponent x \<le> real_of_int (2 ^ 53)"
    using mantissa_bounds(2) [OF assms] by simp
  then show "round_half_even (x / 2 powi float_exponent x) \<le> 2 ^ 53" by (rule rhe_le)
qed

lemma round_double_pos_bounds:
  assumes "0 < x"
  shows "2 powi (float_exponent x + 52) \<le> round_double x"
    "round_double x \<le> 2 powi (float_exponent x + 53)"
proof -
  have nz: "x \<noteq> 0" using assms by simp
  have P: "0 < (2::real) powi float_exponent x" by simp
  have a: "(2::real) powi (float_exponent x + 52) = 2 ^ 52 * 2 powi float_exponent x"
    by (simp add: power_int_add)
  have b: "(2::real) powi (float_exponent x + 53) = 2 ^ 53 * 2 powi float_exponent x"
    by (simp add: power_int_add)
  have "real_of_int (2 ^ 52) \<le> real_of_int (round_half_even (x / 2 powi float_exponent x))"
    using rounded_mantissa_bounds(1) [OF assms] by (simp only: of_int_le_iff)
  then have "2 ^ 52 * 2 powi float_exponent x \<le>
      real_of_int (round_half_even (x / 2 powi float_exponent x)) * 2 powi float_exponent x"
    using P by (simp add: mult_right_mono)
  then show "2 powi (float_exponent x + 52) \<le> round_double x"
    unfolding a by (simp add: round_double_def nz)
  have "real_of_int (round_half_even (x / 2 powi float_exponent x)) \<le> real_of_int (2 ^ 53)"
    using rounded_mantissa_bounds(2) [OF assms] by (simp only: of_int_le_iff)
  then have "real_of_int (round_half_even (x / 2 powi float_exponent x)) * 2 powi float_exponent x
      \<le> 2 ^ 53 * 2 powi float_exponent x"
    using P by (simp add: mult_right_mono)
  then show "round_double x \<le> 2 powi (float_exponent x + 53)"
    unfolding b by (simp add: round_double_def nz)
qed

lemma round_double_pos: "0 < x \<Longrightarrow> 0 < round_double x"
proof -
  assume x: "0 < x"
  have "0 < (2::real) powi (float_exponent x + 52)" by simp
  then show ?thesis using round_double_pos_bounds(1) [OF x] by linarith
qed

lemma round_double_nonneg: "0 \<le> x \<Longrightarrow> 0 \<le> round_double x"
  using round_double_pos [of x] by (cases "x = 0") (auto simp: round_double_def)

text \<open>A representable value at or above \<open>2 powi (e + 52)\<close> is a multiple of \<open>2 powi e\<close>.\<close>

lemma representable_multiple:
  assumes "representable v" "2 powi (e + 52) \<le> v"
  shows "\<exists>M. v = real_of_int M * 2 powi e"
proof -
  from assms(1) obtain m k where v: "v = of_int m * 2 powi k" and m: "\<bar>m\<bar> < 2 ^ 53"
    by (auto simp: representable_def)
  have vpos: "0 < v" using assms(2) by (smt (verit) zero_less_power_int)
  have kpos: "0 < (2::real) powi k" by simp
  have "0 < real_of_int m * 2 powi k" using vpos v by simp
  then have "0 < real_of_int m" using kpos by (rule zero_less_mult_pos2)
  then have mpos: "0 < m" by simp
  have ke: "e \<le> k"
  proof (rule ccontr)
    assume "\<not> e \<le> k"
    then have "k \<le> e - 1" by simp
    then have "(2::real) powi k \<le> 2 powi (e - 1)" by (intro power_int_increasing) simp_all
    moreover have "real_of_int m < 2 ^ 53" using m mpos by (simp flip: of_int_less_iff)
    ultimately have "real_of_int m * 2 powi k < 2 ^ 53 * 2 powi (e - 1)"
      using mpos by (intro mult_less_le_imp_less) simp_all
    moreover have "(2::real) ^ 53 * 2 powi (e - 1) = 2 powi (e + 52)"
      by (simp add: power_int_add power_int_diff)
    ultimately show False using assms(2) v by simp
  qed
  then have "(2::real) powi k = 2 ^ nat (k - e) * 2 powi e"
    using power_int_add [of "2::real" "k - e" e] by (simp add: power_int_def)
  then have "v = real_of_int (m * 2 ^ nat (k - e)) * 2 powi e" by (simp add: v)
  then show ?thesis ..
qed

lemma round_double_le:
  assumes "0 < x" "x \<le> v" "representable v"
  shows "round_double x \<le> v"
proof (cases "2 powi (float_exponent x + 53) \<le> v")
  case True
  then show ?thesis using round_double_pos_bounds(2) [OF assms(1)] by linarith
next
  case False
  have nz: "x \<noteq> 0" using assms(1) by simp
  have P: "0 < (2::real) powi float_exponent x" by simp
  have "2 powi (float_exponent x + 52) \<le> v"
    using float_exponent_bounds(1) [OF nz] assms(1,2) by simp
  from representable_multiple [OF assms(3) this]
  obtain M where M: "v = real_of_int M * 2 powi float_exponent x" by blast
  have "x / 2 powi float_exponent x \<le> real_of_int M"
    using assms(2) P by (simp add: M divide_le_eq)
  then have "round_half_even (x / 2 powi float_exponent x) \<le> M" by (rule rhe_le)
  then have "real_of_int (round_half_even (x / 2 powi float_exponent x)) \<le> real_of_int M"
    by (simp only: of_int_le_iff)
  then show ?thesis using P by (simp add: round_double_def nz M mult_right_mono)
qed

lemma round_double_ge:
  assumes "0 < x" "v \<le> x" "representable v"
  shows "v \<le> round_double x"
proof (cases "2 powi (float_exponent x + 52) \<le> v")
  case False
  then show ?thesis using round_double_pos_bounds(1) [OF assms(1)] by linarith
next
  case True
  have nz: "x \<noteq> 0" using assms(1) by simp
  have P: "0 < (2::real) powi float_exponent x" by simp
  from representable_multiple [OF assms(3) True]
  obtain M where M: "v = real_of_int M * 2 powi float_exponent x" by blast
  have "real_of_int M \<le> x / 2 powi float_exponent x"
    using assms(2) P by (simp add: M le_divide_eq)
  then have "M \<le> round_half_even (x / 2 powi float_exponent x)" by (rule rhe_ge)
  then have "real_of_int M \<le> real_of_int (round_half_even (x / 2 powi float_exponent x))"
    by (simp only: of_int_le_iff)
  then show ?thesis using P by (simp add: round_double_def nz M mult_right_mono)
qed

lemma round_double_exact:
  assumes "0 \<le> v" "representable v"
  shows "round_double v = v"
proof (cases "v = 0")
  case True
  then show ?thesis by (simp add: round_double_def)
next
  case False
  then have "0 < v" using assms(1) by simp
  from round_double_le [OF this _ assms(2)] round_double_ge [OF this _ assms(2)]
  show ?thesis by simp
qed

lemma float_exponent_mono:
  assumes "0 < x" "x \<le> y"
  shows "float_exponent x \<le> float_exponent y"
proof -
  have "log 2 \<bar>x\<bar> \<le> log 2 \<bar>y\<bar>" using assms by simp
  then show ?thesis unfolding float_exponent_def using floor_mono by fastforce
qed

lemma round_double_mono:
  assumes "0 \<le> x" "x \<le> y"
  shows "round_double x \<le> round_double y"
proof (cases "x = 0")
  case True
  then show ?thesis using round_double_nonneg [of y] assms by (simp add: round_double_def)
next
  case False
  then have x: "0 < x" and y: "0 < y" using assms by simp_all
  have le: "float_exponent x \<le> float_exponent y" using x assms(2) by (rule float_exponent_mono)
  show ?thesis
  proof (cases "float_exponent x = float_exponent y")
    case True
    have P: "0 < (2::real) powi float_exponent y" by simp
    have "x / 2 powi float_exponent y \<le> y / 2 powi float_exponent y"
      using assms(2) P by (simp add: divide_right_mono)
    then have "round_half_even (x / 2 powi float_exponent y)
        \<le> round_half_even (y / 2 powi float_exponent y)" by (rule rhe_mono)
    then have "real_of_int (round_half_even (x / 2 powi float_exponent y))
        \<le> real_of_int (round_half_even (y / 2 powi float_exponent y))" by (simp only: of_int_le_iff)
    then show ?thesis using P x y by (simp add: round_double_def True mult_right_mono)
  next
    case False
    then have "float_exponent x + 53 \<le> float_exponent y + 52" using le by simp
    then have "(2::real) powi (float_exponent x + 53) \<le> 2 powi (float_exponent y + 52)"
      by (intro power_int_increasing) simp_all
    then show ?thesis
      using round_double_pos_bounds(2) [OF x] round_double_pos_bounds(1) [OF y] by linarith
  qed
qed

lemma representable_of_nat: "n < 2 ^ 53 \<Longrightarrow> representable (real n)"
  unfolding representable_def
  by (rule exI [of _ "int n"], rule exI [of _ 0]) (simp flip: of_nat_less_iff)

lemma round_double_of_nat: "n < 2 ^ 53 \<Longrightarrow> round_double (real n) = real n"
  by (rule round_double_exact) (simp_all add: representable_of_nat)

lemma rd_third: "round_double (1 / 3) = 6004799503160661 / 2 ^ 54"
proof -
  have "round_double (1 / 3) =
      of_int (round_half_even ((1 / 3) / 2 powi (- 2 - 52))) * 2 powi (- 2 - 52)"
    by (rule round_double_eval) simp_all
  also have "\<dots> = 6004799503160661 / 2 ^ 54"
    by (simp add: round_half_even_def Let_def power_int_minus)
  finally show ?thesis .
qed

lemma rd_third_100: "round_double (6004799503160661 / 2 ^ 54 * 100) = 4691249611844266 / 2 ^ 47"
proof -
  have "round_double (6004799503160661 / 2 ^ 54 * 100) =
      of_int (round_half_even ((6004799503160661 / 2 ^ 54 * 100) / 2 powi (5 - 52))) * 2 powi (5 - 52)"
    by (rule round_double_eval) simp_all
  also have "\<dots> = 4691249611844266 / 2 ^ 47"
    by (simp add: round_half_even_def Let_def power_int_minus)
  finally show ?thesis .
qed

section \<open>Properties of the regional coverage\<close>

lemma rhe_error: "\<bar>real_of_int (round_half_even m) - m\<bar> \<le> 1 / 2"
proof -
  have "real_of_int \<lfloor>m\<rfloor> \<le> m" "m < real_of_int \<lfloor>m\<rfloor> + 1" by linarith+
  then show ?thesis by (auto simp: round_half_even_def Let_def abs_le_iff)
qed

lemma round_double_error:
  assumes "0 \<le> x"
  shows "\<bar>round_double x - x\<bar> \<le> x / 2 ^ 53"
proof (cases "x = 0")
  case True
  then show ?thesis by (simp add: round_double_def)
next
  case False
  then have x: "0 < x" using assms by simp
  define P :: real where "P = 2 powi float_exponent x"
  have P: "0 < P" by (simp add: P_def)
  have m: "2 ^ 52 \<le> x / P" using mantissa_bounds(1) [OF x] by (simp add: P_def)
  then have Px: "P * 2 ^ 52 \<le> x" using P by (simp add: le_divide_eq mult.commute)
  have "round_double x - x = (real_of_int (round_half_even (x / P)) - x / P) * P"
    using P False by (simp add: round_double_def P_def algebra_simps)
  then have "\<bar>round_double x - x\<bar> = \<bar>real_of_int (round_half_even (x / P)) - x / P\<bar> * P"
    using P by (simp add: abs_mult)
  also have "\<dots> \<le> 1 / 2 * P"
    using rhe_error [of "x / P"] P by (intro mult_right_mono) simp_all
  also have "\<dots> \<le> x / 2 ^ 53" using Px by simp
  finally show ?thesis .
qed

lemma round_double_rel:
  assumes "0 \<le> x"
  shows "x * (1 - 1 / 2 ^ 53) \<le> round_double x" "round_double x \<le> x * (1 + 1 / 2 ^ 53)"
proof -
  have e: "\<bar>round_double x - x\<bar> \<le> x / 2 ^ 53" using assms by (rule round_double_error)
  have a: "x * (1 - 1 / 2 ^ 53) = x - x / 2 ^ 53" "x * (1 + 1 / 2 ^ 53) = x + x / 2 ^ 53"
    by (simp_all add: algebra_simps)
  show "x * (1 - 1 / 2 ^ 53) \<le> round_double x" unfolding a using e by linarith
  show "round_double x \<le> x * (1 + 1 / 2 ^ 53)" unfolding a using e by linarith
qed

lemma representable_one: "representable 1"
  unfolding representable_def by (rule exI [of _ 1], rule exI [of _ 0]) simp

lemma representable_hundred: "representable 100"
  unfolding representable_def by (rule exI [of _ 100], rule exI [of _ 0]) simp

lemma np_sum_le: "np_sum bs \<le> length bs"
  by (simp add: np_sum_def)

lemma region_percentage_range:
  assumes "0 < total_pixels" "np_sum bs \<le> total_pixels"
  shows "0 \<le> region_percentage bs total_pixels" "region_percentage bs total_pixels \<le> 100"
proof -
  define c where "c = double_of_nat (np_sum bs)"
  define n where "n = double_of_nat total_pixels"
  have c0: "0 \<le> c" by (simp add: c_def double_of_nat_def round_double_nonneg)
  have n0: "0 < n" using assms(1) by (simp add: n_def double_of_nat_def round_double_pos)
  have cn: "c \<le> n" using assms(2) by (simp add: c_def n_def double_of_nat_def round_double_mono)
  have q0: "0 \<le> c / n" and q1: "c / n \<le> 1" using c0 n0 cn by simp_all
  have r0: "0 \<le> fdiv c n" using q0 by (simp add: fdiv_def round_double_nonneg)
  have r1: "fdiv c n \<le> 1"
  proof (cases "c / n = 0")
    case True
    then show ?thesis by (simp add: fdiv_def round_double_def)
  next
    case False
    then have "0 < c / n" using q0 by (metis order_less_le)
    then show ?thesis unfolding fdiv_def using q1 representable_one by (rule round_double_le)
  qed
  have p: "region_percentage bs total_pixels = round_double (fdiv c n * 100)"
    by (simp add: region_percentage_def fmul_def c_def n_def)
  show "0 \<le> region_percentage bs total_pixels" using r0 by (simp add: p round_double_nonneg)
  show "region_percentage bs total_pixels \<le> 100"
  proof (cases "fdiv c n * 100 = 0")
    case True
    then show ?thesis by (simp add: p round_double_def)
  next
    case False
    moreover have "0 \<le> fdiv c n * 100" using r0 by simp
    ultimately have "0 < fdiv c n * 100" by (metis order_less_le)
    moreover have "fdiv c n * 100 \<le> 100" using r1 by simp
    ultimately show ?thesis unfolding p using representable_hundred by (intro round_double_le)
  qed
qed

lemma thirds_ordered: "fdiv (real side) 3 \<le> fdiv (real (2 * side)) 3"
  unfolding fdiv_def by (rule round_double_mono) simp_all

lemma thirds_partition:
  "np_sum (first_third_mask coords side) + np_sum (second_third_mask coords side) +
   np_sum (last_third_mask coords side) = length coords"
proof (induction coords)
  case Nil
  then show ?case by (simp add: np_sum_def first_third_mask_def second_third_mask_def last_third_mask_def)
next
  case (Cons c cs)
  then show ?case
    using thirds_ordered [of side]
    by (auto simp: np_sum_def first_third_mask_def second_third_mask_def last_third_mask_def)
qed

lemma region_percentage_rel:
  assumes "0 < total_pixels"
  shows "100 * ((1 - 1 / 2 ^ 53) ^ 3 / (1 + 1 / 2 ^ 53)) * (real (np_sum bs) / real total_pixels)
           \<le> region_percentage bs total_pixels"
    and "region_percentage bs total_pixels
           \<le> 100 * ((1 + 1 / 2 ^ 53) ^ 3 / (1 - 1 / 2 ^ 53)) * (real (np_sum bs) / real total_pixels)"
proof -
  define U :: real where "U = 1 + 1 / 2 ^ 53"
  define L :: real where "L = 1 - 1 / 2 ^ 53"
  define c where "c = real (np_sum bs)"
  define n where "n = real total_pixels"
  define a where "a = double_of_nat (np_sum bs)"
  define N where "N = double_of_nat total_pixels"
  define q where "q = fdiv a N"
  have U: "0 < U" and L: "0 < L" by (simp_all add: U_def L_def)
  have c0: "0 \<le> c" and n0: "0 < n" using assms by (simp_all add: c_def n_def)
  have a0: "0 \<le> a" by (simp add: a_def double_of_nat_def round_double_nonneg)
  have N0: "0 < N" using assms by (simp add: N_def double_of_nat_def round_double_pos)
  have a1: "c * L \<le> a" and a2: "a \<le> c * U"
    using round_double_rel [of c] c0 by (simp_all add: a_def double_of_nat_def c_def L_def U_def)
  have N1: "n * L \<le> N" and N2: "N \<le> n * U"
    using round_double_rel [of n] n0 by (simp_all add: N_def double_of_nat_def n_def L_def U_def)
  have r0: "0 \<le> a / N" using a0 N0 by simp
  have r1: "c * L / (n * U) \<le> a / N"
    using a0 a1 N0 N2 by (intro frac_le) simp_all
  have r2: "a / N \<le> c * U / (n * L)"
    using a2 N1 c0 U n0 L by (intro frac_le) simp_all
  have q0: "0 \<le> q" using r0 by (simp add: q_def fdiv_def round_double_nonneg)
  have q1: "a / N * L \<le> q" and q2: "q \<le> a / N * U"
    using round_double_rel [of "a / N"] r0 by (simp_all add: q_def fdiv_def L_def U_def)
  have p: "region_percentage bs total_pixels = round_double (q * 100)"
    by (simp add: region_percentage_def fmul_def q_def a_def N_def)
  have p1: "q * 100 * L \<le> round_double (q * 100)" and p2: "round_double (q * 100) \<le> q * 100 * U"
    using round_double_rel [of "q * 100"] q0 by (simp_all add: L_def U_def)
  have "100 * (L ^ 3 / U) * (c / n) = c * L / (n * U) * L * 100 * L"
    using U n0 by (simp add: power3_eq_cube field_simps)
  also have "\<dots> \<le> a / N * L * 100 * L"
    using r1 L by (intro mult_right_mono) simp_all
  also have "\<dots> \<le> q * 100 * L"
    using q1 L by (intro mult_right_mono) simp_all
  also have "\<dots> \<le> round_double (q * 100)" by (rule p1)
  finally show "100 * ((1 - 1 / 2 ^ 53) ^ 3 / (1 + 1 / 2 ^ 53)) * (real (np_sum bs) / real total_pixels)
           \<le> region_percentage bs total_pixels"
    unfolding p L_def U_def c_def n_def .
  have "round_double (q * 100) \<le> q * 100 * U" by (rule p2)
  also have "\<dots> \<le> a / N * U * 100 * U"
    using q2 U by (intro mult_right_mono) simp_all
  also have "\<dots> \<le> c * U / (n * L) * U * 100 * U"
    using r2 U by (intro mult_right_mono) simp_all
  also have "\<dots> = 100 * (U ^ 3 / L) * (c / n)"
    using L n0 by (simp add: power3_eq_cube field_simps)
  finally show "region_percentage bs total_pixels
           \<le> 100 * ((1 + 1 / 2 ^ 53) ^ 3 / (1 - 1 / 2 ^ 53)) * (real (np_sum bs) / real total_pixels)"
    unfolding p L_def U_def c_def n_def .
qed

lemma thirds_sum_close:
  assumes "coords \<noteq> []"
  shows "\<bar>region_percentage (first_third_mask coords side) (length coords) +
          region_percentage (second_third_mask coords side) (length coords) +
          region_percentage (last_third_mask coords side) (length coords) - 100\<bar> \<le> 1 / 10 ^ 13"
proof -
  define n where "n = length coords"
  define c1 where "c1 = np_sum (first_third_mask coords side)"
  define c2 where "c2 = np_sum (second_third_mask coords side)"
  define c3 where "c3 = np_sum (last_third_mask coords side)"
  define K1 :: real where "K1 = 100 * ((1 - 1 / 2 ^ 53) ^ 3 / (1 + 1 / 2 ^ 53))"
  define K2 :: real where "K2 = 100 * ((1 + 1 / 2 ^ 53) ^ 3 / (1 - 1 / 2 ^ 53))"
  have n0: "0 < n" using assms by (simp add: n_def)
  have "c1 + c2 + c3 = n" unfolding c1_def c2_def c3_def n_def by (rule thirds_partition)
  then have "real c1 + real c2 + real c3 = real n" by (metis of_nat_add)
  then have s: "real c1 / real n + real c2 / real n + real c3 / real n = 1"
    using n0 by (simp flip: add_divide_distrib)
  note b1 = region_percentage_rel [OF n0, of "first_third_mask coords side", folded K1_def K2_def c1_def]
  note b2 = region_percentage_rel [OF n0, of "second_third_mask coords side", folded K1_def K2_def c2_def]
  note b3 = region_percentage_rel [OF n0, of "last_third_mask coords side", folded K1_def K2_def c3_def]
  have lo: "K1 * (real c1 / real n + real c2 / real n + real c3 / real n) \<le>
      region_percentage (first_third_mask coords side) n +
      region_percentage (second_third_mask coords side) n +
      region_percentage (last_third_mask coords side) n"
    using b1(1) b2(1) b3(1) by (simp add: distrib_left)
  have hi: "region_percentage (first_third_mask coords side) n +
      region_percentage (second_third_mask coords side) n +
      region_percentage (last_third_mask coords side) n \<le>
      K2 * (real c1 / real n + real c2 / real n + real c3 / real n)"
    using b1(2) b2(2) b3(2) by (simp add: distrib_left)
  have k1: "100 - 1 / 10 ^ 13 \<le> K1" by (simp add: K1_def power_divide)
  have k2: "K2 \<le> 100 + 1 / 10 ^ 13" by (simp add: K2_def power_divide)
  have lo': "K1 \<le>
      region_percentage (first_third_mask coords side) n +
      region_percentage (second_third_mask coords side) n +
      region_percentage (last_third_mask coords side) n"
    using lo unfolding s by simp
  have hi': "region_percentage (first_third_mask coords side) n +
      region_percentage (second_third_mask coords side) n +
      region_percentage (last_third_mask coords side) n \<le> K2"
    using hi unfolding s by simp
  show ?thesis using lo' hi' k1 k2 unfolding n_def by linarith
qed

lemma double_of_nat_small: "n < 2 ^ 53 \<Longrightarrow> double_of_nat n = real n"
  by (simp add: double_of_nat_def round_double_of_nat)

lemma round_double_small_nat: "round_double 1 = 1" "round_double 2 = 2" "round_double 3 = 3"
  using round_double_of_nat [of 1] round_double_of_nat [of 2] round_double_of_nat [of 3]
  by simp_all

lemma one_of_three:
  assumes "np_sum bs = 1"
  shows "region_percentage bs 3 = 4691249611844266 / 2 ^ 47"
proof -
  have "region_percentage bs 3 = round_double (round_double (1 / 3) * 100)"
    by (simp add: region_percentage_def assms double_of_nat_small fdiv_def fmul_def)
  also have "\<dots> = round_double (6004799503160661 / 2 ^ 54 * 100)"
    by (simp only: rd_third)
  also have "\<dots> = 4691249611844266 / 2 ^ 47" by (rule rd_third_100)
  finally show ?thesis .
qed

lemma thirds_exactly_one:
  assumes "i < length coords"
  shows "(first_third_mask coords side ! i \<and> \<not> second_third_mask coords side ! i \<and>
            \<not> last_third_mask coords side ! i) \<or>
         (\<not> first_third_mask coords side ! i \<and> second_third_mask coords side ! i \<and>
            \<not> last_third_mask coords side ! i) \<or>
         (\<not> first_third_mask coords side ! i \<and> \<not> second_third_mask coords side ! i \<and>
            last_third_mask coords side ! i)"
  using assms thirds_ordered [of side]
  by (auto simp: first_third_mask_def second_third_mask_def last_third_mask_def)

lemma column_of_three:
  "first_third_mask [0, 1, 2] 3 = [True, False, False]"
  "second_third_mask [0, 1, 2] 3 = [False, True, False]"
  "last_third_mask [0, 1, 2] 3 = [False, False, True]"
  by (simp_all add: first_third_mask_def second_third_mask_def last_third_mask_def
      double_of_nat_small fdiv_def round_double_small_nat)

text \<open>
  C10, as the code has it. For a non-empty coordinate set, every pixel falls in exactly one
  vertical third and exactly one horizontal third (at every index exactly one of the three
  masks of an axis is true, so the three mask counts add up to the number of pixels), each
  of the six percentages lies between 0 and 100, and the three percentages of an axis add
  up to 100 up to rounding, within \<open>1 / 10 ^ 13\<close>. For an empty coordinate set all
  six values are 0.
\<close>

theorem regional_coverage_thirds:
  "(y_coords \<noteq> [] \<and> length x_coords = length y_coords \<longrightarrow>
      (\<forall>i < length y_coords.
         (first_third_mask y_coords height ! i \<and> \<not> second_third_mask y_coords height ! i \<and>
            \<not> last_third_mask y_coords height ! i) \<or>
         (\<not> first_third_mask y_coords height ! i \<and> second_third_mask y_coords height ! i \<and>
            \<not> last_third_mask y_coords height ! i) \<or>
         (\<not> first_third_mask y_coords height ! i \<and> \<not> second_third_mask y_coords height ! i \<and>
            last_third_mask y_coords height ! i)) \<and>
      (\<forall>i < length x_coords.
         (first_third_mask x_coords width ! i \<and> \<not> second_third_mask x_coords width ! i \<and>
            \<not> last_third_mask x_coords width ! i) \<or>
         (\<not> first_third_mask x_coords width ! i \<and> second_third_mask x_coords width ! i \<and>
            \<not> last_third_mask x_coords width ! i) \<or>
         (\<not> first_third_mask x_coords width ! i \<and> \<not> second_third_mask x_coords width ! i \<and>
            last_third_mask x_coords width ! i)) \<and>
      np_sum (first_third_mask y_coords height) + np_sum (second_third_mask y_coords height) +
        np_sum (last_third_mask y_coords height) = length y_coords \<and>
      np_sum (first_third_mask x_coords width) + np_sum (second_third_mask x_coords width) +
        np_sum (last_third_mask x_coords width) = length x_coords \<and>
      (\<forall>v \<in> {cov_top (analyze_regional_coverage y_coords x_coords height width),
              cov_middle (analyze_regional_coverage y_coords x_coords height width),
              cov_bottom (analyze_regional_coverage y_coords x_coords height width),
              cov_left (analyze_regional_coverage y_coords x_coords height width),
              cov_center (analyze_regional_coverage y_coords x_coords height width),
              cov_right (analyze_regional_coverage y_coords x_coords height width)}.
         0 \<le> v \<and> v \<le> 100) \<and>
      \<bar>cov_top (analyze_regional_coverage y_coords x_coords height width) +
       cov_middle (analyze_regional_coverage y_coords x_coords height width) +
       cov_bottom (analyze_regional_coverage y_coords x_coords height width) - 100\<bar> \<le> 1 / 10 ^ 13 \<and>
      \<bar>cov_left (analyze_regional_coverage y_coords x_coords height width) +
       cov_center (analyze_regional_coverage y_coords x_coords height width) +
       cov_right (analyze_regional_coverage y_coords x_coords height width) - 100\<bar> \<le> 1 / 10 ^ 13) \<and>
   analyze_regional_coverage [] x_coords height width =
     \<lparr>cov_top = 0, cov_middle = 0, cov_bottom = 0, cov_left = 0, cov_center = 0, cov_right = 0\<rparr>"
proof (intro conjI impI)
  show "analyze_regional_coverage [] x_coords height width =
     \<lparr>cov_top = 0, cov_middle = 0, cov_bottom = 0, cov_left = 0, cov_center = 0, cov_right = 0\<rparr>"
    by (simp add: analyze_regional_coverage_def)
next
  assume h: "y_coords \<noteq> [] \<and> length x_coords = length y_coords"
  then have ne: "y_coords \<noteq> []" and len: "length x_coords = length y_coords"
    and xne: "x_coords \<noteq> []" by auto
  have n0: "0 < length y_coords" using ne by simp
  have c: "analyze_regional_coverage y_coords x_coords height width =
     \<lparr>cov_top = region_percentage (first_third_mask y_coords height) (length y_coords),
      cov_middle = region_percentage (second_third_mask y_coords height) (length y_coords),
      cov_bottom = region_percentage (last_third_mask y_coords height) (length y_coords),
      cov_left = region_percentage (first_third_mask x_coords width) (length y_coords),
      cov_center = region_percentage (second_third_mask x_coords width) (length y_coords),
      cov_right = region_percentage (last_third_mask x_coords width) (length y_coords)\<rparr>"
    using ne by (simp add: analyze_regional_coverage_def Let_def)
  show "\<forall>i < length y_coords.
      (first_third_mask y_coords height ! i \<and> \<not> second_third_mask y_coords height ! i \<and>
         \<not> last_third_mask y_coords height ! i) \<or>
      (\<not> first_third_mask y_coords height ! i \<and> second_third_mask y_coords height ! i \<and>
         \<not> last_third_mask y_coords height ! i) \<or>
      (\<not> first_third_mask y_coords height ! i \<and> \<not> second_third_mask y_coords height ! i \<and>
         last_third_mask y_coords height ! i)"
    using thirds_exactly_one [of _ y_coords height] by blast
  show "\<forall>i < length x_coords.
      (first_third_mask x_coords width ! i \<and> \<not> second_third_mask x_coords width ! i \<and>
         \<not> last_third_mask x_coords width ! i) \<or>
      (\<not> first_third_mask x_coords width ! i \<and> second_third_mask x_coords width ! i \<and>
         \<not> last_third_mask x_coords width ! i) \<or>
      (\<not> first_third_mask x_coords width ! i \<and> \<not> second_third_mask x_coords width ! i \<and>
         last_third_mask x_coords width ! i)"
    using thirds_exactly_one [of _ x_coords width] by blast
  show "np_sum (first_third_mask y_coords height) + np_sum (second_third_mask y_coords height) +
        np_sum (last_third_mask y_coords height) = length y_coords"
    by (rule thirds_partition)
  show "np_sum (first_third_mask x_coords width) + np_sum (second_third_mask x_coords width) +
        np_sum (last_third_mask x_coords width) = length x_coords"
    by (rule thirds_partition)
  have ly: "np_sum (first_third_mask y_coords height) \<le> length y_coords"
    "np_sum (second_third_mask y_coords height) \<le> length y_coords"
    "np_sum (last_third_mask y_coords height) \<le> length y_coords"
    using np_sum_le [of "first_third_mask y_coords height"]
      np_sum_le [of "second_third_mask y_coords height"]
      np_sum_le [of "last_third_mask y_coords height"]
    by (simp_all add: first_third_mask_def second_third_mask_def last_third_mask_def)
  have lx: "np_sum (first_third_mask x_coords width) \<le> length y_coords"
    "np_sum (second_third_mask x_coords width) \<le> length y_coords"
    "np_sum (last_third_mask x_coords width) \<le> length y_coords"
    using np_sum_le [of "first_third_mask x_coords width"]
      np_sum_le [of "second_third_mask x_coords width"]
      np_sum_le [of "last_third_mask x_coords width"] len
    by (simp_all add: first_third_mask_def second_third_mask_def last_third_mask_def)
  show "\<forall>v \<in> {cov_top (analyze_regional_coverage y_coords x_coords height width),
              cov_middle (analyze_regional_coverage y_coords x_coords height width),
              cov_bottom (analyze_regional_coverage y_coords x_coords height width),
              cov_left (analyze_regional_coverage y_coords x_coords height width),
              cov_center (analyze_regional_coverage y_coords x_coords height width),
              cov_right (analyze_regional_coverage y_coords x_coords height width)}.
         0 \<le> v \<and> v \<le> 100"
    unfolding c using region_percentage_range [OF n0 ly(1)] region_percentage_range [OF n0 ly(2)]
      region_percentage_range [OF n0 ly(3)] region_percentage_range [OF n0 lx(1)]
      region_percentage_range [OF n0 lx(2)] region_percentage_range [OF n0 lx(3)]
    by simp
  show "\<bar>cov_top (analyze_regional_coverage y_coords x_coords height width) +
       cov_middle (analyze_regional_coverage y_coords x_coords height width) +
       cov_bottom (analyze_regional_coverage y_coords x_coords height width) - 100\<bar> \<le> 1 / 10 ^ 13"
    unfolding c using thirds_sum_close [OF ne, of height] by simp
  show "\<bar>cov_left (analyze_regional_coverage y_coords x_coords height width) +
       cov_center (analyze_regional_coverage y_coords x_coords height width) +
       cov_right (analyze_regional_coverage y_coords x_coords height width) - 100\<bar> \<le> 1 / 10 ^ 13"
    unfolding c using thirds_sum_close [OF xne, of width] len by simp
qed

lemma column_of_three_coverage:
  "cov_top (analyze_regional_coverage [0, 1, 2] [0, 0, 0] 3 1) = 4691249611844266 / 2 ^ 47"
  "cov_middle (analyze_regional_coverage [0, 1, 2] [0, 0, 0] 3 1) = 4691249611844266 / 2 ^ 47"
  "cov_bottom (analyze_regional_coverage [0, 1, 2] [0, 0, 0] 3 1) = 4691249611844266 / 2 ^ 47"
proof -
  have len: "length [0, 1, 2 :: nat] = 3" by simp
  have v: "region_percentage [True, False, False] 3 = 4691249611844266 / 2 ^ 47"
    "region_percentage [False, True, False] 3 = 4691249611844266 / 2 ^ 47"
    "region_percentage [False, False, True] 3 = 4691249611844266 / 2 ^ 47"
    by (rule one_of_three, simp add: np_sum_def)+
  show "cov_top (analyze_regional_coverage [0, 1, 2] [0, 0, 0] 3 1) = 4691249611844266 / 2 ^ 47"
    unfolding analyze_regional_coverage_def Let_def len column_of_three v by simp
  show "cov_middle (analyze_regional_coverage [0, 1, 2] [0, 0, 0] 3 1) = 4691249611844266 / 2 ^ 47"
    unfolding analyze_regional_coverage_def Let_def len column_of_three v by simp
  show "cov_bottom (analyze_regional_coverage [0, 1, 2] [0, 0, 0] 3 1) = 4691249611844266 / 2 ^ 47"
    unfolding analyze_regional_coverage_def Let_def len column_of_three v by simp
qed

text \<open>
  C10 as stated fails: for three pixels, one in each third of a column of height 3, each
  percentage is the double \<open>1 / 3 * 100 = 33.33333333333333\<close>, and three times that
  double is \<open>100 - 2 powi (- 46)\<close>.
\<close>

theorem regional_coverage_sum_not_100:
  "cov_top (analyze_regional_coverage [0, 1, 2] [0, 0, 0] 3 1) +
   cov_middle (analyze_regional_coverage [0, 1, 2] [0, 0, 0] 3 1) +
   cov_bottom (analyze_regional_coverage [0, 1, 2] [0, 0, 0] 3 1) \<noteq> 100"
  unfolding column_of_three_coverage by simp

text \<open>
  C10, as the code has it, at the column of three pixels.
\<close>

theorem regional_coverage_thirds_witness:
  "[0, 1, 2] \<noteq> ([] :: nat list) \<and> length [0, 0, 0 :: nat] = length [0, 1, 2 :: nat] \<and>
   (1 :: nat) < length [0, 1, 2 :: nat] \<and>
   \<not> first_third_mask [0, 1, 2] 3 ! 1 \<and> second_third_mask [0, 1, 2] 3 ! 1 \<and>
   \<not> last_third_mask [0, 1, 2] 3 ! 1 \<and>
   0 \<le> cov_top (analyze_regional_coverage [0, 1, 2] [0, 0, 0] 3 1) \<and>
   cov_top (analyze_regional_coverage [0, 1, 2] [0, 0, 0] 3 1) \<le> 100 \<and>
   \<bar>cov_top (analyze_regional_coverage [0, 1, 2] [0, 0, 0] 3 1) +
    cov_middle (analyze_regional_coverage [0, 1, 2] [0, 0, 0] 3 1) +
    cov_bottom (analyze_regional_coverage [0, 1, 2] [0, 0, 0] 3 1) - 100\<bar> \<le> 1 / 10 ^ 13"
proof -
  have m: "\<not> first_third_mask [0, 1, 2] 3 ! 1 \<and> second_third_mask [0, 1, 2] 3 ! 1 \<and>
      \<not> last_third_mask [0, 1, 2] 3 ! 1"
    unfolding column_of_three by simp
  from regional_coverage_thirds [of "[0, 1, 2]" "[0, 0, 0]" 3 1]
  have "0 \<le> cov_top (analyze_regional_coverage [0, 1, 2] [0, 0, 0] 3 1) \<and>
   cov_top (analyze_regional_coverage [0, 1, 2] [0, 0, 0] 3 1) \<le> 100 \<and>
   \<bar>cov_top (analyze_regional_coverage [0, 1, 2] [0, 0, 0] 3 1) +
    cov_middle (analyze_regional_coverage [0, 1, 2] [0, 0, 0] 3 1) +
    cov_bottom (analyze_regional_coverage [0, 1, 2] [0, 0, 0] 3 1) - 100\<bar> \<le> 1 / 10 ^ 13"
    by simp
  with m show ?thesis by simp
qed

section \<open>Properties of the distribution classifier\<close>

lemma representableI: "\<bar>m\<bar> < 2 ^ 53 \<Longrightarrow> v = real_of_int m * 2 powi k \<Longrightarrow> representable v"
  unfolding representable_def by blast

lemma double_07: "round_double 0.7 \<le> 23 / 32"
proof -
  have "representable (23 / 32)"
    by (rule representableI [of 23 _ "- 5"]) (simp_all add: power_int_minus)
  then show ?thesis by (intro round_double_le) simp_all
qed

lemma three_quarters: "round_double (3 / 4) = 3 / 4"
proof -
  have "representable (3 / 4)"
    by (rule representableI [of 3 _ "- 2"]) (simp_all add: power_int_minus)
  then show ?thesis by (intro round_double_exact) simp_all
qed

subsection \<open>Evaluating a rounding\<close>

text \<open>
  The square root of a double is rounded like any other real number; the mantissa of the
  result is found by comparing squares.
\<close>

lemma pairwise_sum_nine:
  "pairwise_sum [a0, a1, a2, a3, a4, a5, a6, a7, a8] =
     fadd (fadd (fadd (fadd a0 a1) (fadd a2 a3)) (fadd (fadd a4 a5) (fadd a6 a7))) a8"
  by (subst pairwise_sum.simps) (simp add: Let_def)

lemma pairwise_sum_two: "pairwise_sum [a0, a1] = fadd (fadd 0 a0) a1"
  by (subst pairwise_sum.simps) simp

lemma rhe_eq:
  assumes "real_of_int M - 1 / 2 < m" "m < real_of_int M + 1 / 2"
  shows "round_half_even m = M"
proof -
  have "M \<le> round_half_even m"
  proof (cases "real_of_int M \<le> m")
    case True
    then show ?thesis by (rule rhe_ge)
  next
    case False
    then have f: "\<lfloor>m\<rfloor> = M - 1" using assms(1) by linarith
    have "1 / 2 < m - real_of_int \<lfloor>m\<rfloor>" unfolding f using assms(1) by simp
    then show ?thesis using f by (simp add: round_half_even_def Let_def)
  qed
  moreover have "round_half_even m \<le> M"
  proof (cases "m \<le> real_of_int M")
    case True
    then show ?thesis by (rule rhe_le)
  next
    case False
    then have f: "\<lfloor>m\<rfloor> = M" using assms(2) by linarith
    have "m - real_of_int \<lfloor>m\<rfloor> < 1 / 2" unfolding f using assms(2) by simp
    then show ?thesis using f by (simp add: round_half_even_def Let_def)
  qed
  ultimately show ?thesis by simp
qed

lemma round_half_even_sqrt:
  assumes "1 \<le> M" "0 < P" "((real_of_int M - 1 / 2) * P)\<^sup>2 < v" "v < ((real_of_int M + 1 / 2) * P)\<^sup>2"
  shows "round_half_even (sqrt v / P) = M"
proof (rule rhe_eq)
  have lo: "0 \<le> (real_of_int M - 1 / 2) * P" using assms(1,2) by simp
  have hi: "0 \<le> (real_of_int M + 1 / 2) * P" using assms(1,2) by simp
  have "(real_of_int M - 1 / 2) * P < sqrt v"
    using assms(3) lo by (metis real_less_rsqrt)
  then show "real_of_int M - 1 / 2 < sqrt v / P" using assms(2) by (simp add: less_divide_eq)
  have "sqrt v < (real_of_int M + 1 / 2) * P"
    using assms(4) hi by (metis real_less_lsqrt abs_of_nonneg)
  then show "sqrt v / P < real_of_int M + 1 / 2" using assms(2) by (simp add: divide_less_eq)
qed

lemma round_double_eval_sqrt:
  assumes "(2 powi k)\<^sup>2 \<le> v" "v < (2 powi (k + 1))\<^sup>2"
  shows "round_double (sqrt v) =
         of_int (round_half_even (sqrt v / 2 powi (k - 52))) * 2 powi (k - 52)"
proof (rule round_double_eval)
  have "2 powi k \<le> sqrt v" using assms(1) by (simp add: real_le_rsqrt)
  then show "2 powi k \<le> \<bar>sqrt v\<bar>" by simp
  have "0 \<le> (2::real) powi (k + 1)" by simp
  then have "sqrt v < 2 powi (k + 1)" using assms(2) by (metis real_less_lsqrt)
  moreover have "0 \<le> sqrt v" using assms(1) by (smt (verit) real_sqrt_ge_zero zero_le_power2)
  ultimately show "\<bar>sqrt v\<bar> < 2 powi (k + 1)" by simp
qed

lemma double_of_nat_forty: "double_of_nat 40 = 40"
  using double_of_nat_small [of 40] by simp

subsection \<open>The standard deviation of nine coordinates\<close>

text \<open>
  \<open>np.std\<close> on the coordinates 3, 6, 14, 15, 15, 18, 19, 20, 22, in this order and in the
  order 15, 22, 18, 3, 20, 15, 19, 14, 6, operation by operation. The mean is
  \<open>132 / 9\<close> rounded, the exact variance is 36 and the exact deviation 6; the computed
  variance is one unit in the last place below 36, and the computed deviation over a side
  of 40 is the double just below \<open>0.15\<close>.
\<close>

lemma std_step_1: "fdiv 132 9 = (8256599316845909 / 2 ^ 49)"
proof -
  have "round_double (132 / 9) =
      of_int (round_half_even ((132 / 9) / 2 powi (3 - 52))) * 2 powi (3 - 52)"
    by (rule round_double_eval) simp_all
  also have "\<dots> = (8256599316845909 / 2 ^ 49)"
    by (simp add: round_half_even_def Let_def power_int_minus)
  finally show ?thesis by (simp only: fdiv_def)
qed

lemma std_step_2: "fsub 3 (8256599316845909 / 2 ^ 49) = (- (6567749456581973 / 2 ^ 49))"
proof -
  have "round_double (3 - (8256599316845909 / 2 ^ 49)) =
      of_int (round_half_even ((3 - (8256599316845909 / 2 ^ 49)) / 2 powi (3 - 52))) * 2 powi (3 - 52)"
    by (rule round_double_eval) simp_all
  also have "\<dots> = (- (6567749456581973 / 2 ^ 49))"
    by (simp add: round_half_even_def Let_def power_int_minus)
  finally show ?thesis by (simp only: fsub_def)
qed

lemma std_step_3: "fsub 6 (8256599316845909 / 2 ^ 49) = (- (4878899596318037 / 2 ^ 49))"
proof -
  have "round_double (6 - (8256599316845909 / 2 ^ 49)) =
      of_int (round_half_even ((6 - (8256599316845909 / 2 ^ 49)) / 2 powi (3 - 52))) * 2 powi (3 - 52)"
    by (rule round_double_eval) simp_all
  also have "\<dots> = (- (4878899596318037 / 2 ^ 49))"
    by (simp add: round_half_even_def Let_def power_int_minus)
  finally show ?thesis by (simp only: fsub_def)
qed

lemma std_step_4: "fsub 14 (8256599316845909 / 2 ^ 49) = (- (375299968947541 / 2 ^ 49))"
proof -
  have "round_double (14 - (8256599316845909 / 2 ^ 49)) =
      of_int (round_half_even ((14 - (8256599316845909 / 2 ^ 49)) / 2 powi ((- 1) - 52))) * 2 powi ((- 1) - 52)"
    by (rule round_double_eval) simp_all
  also have "\<dots> = (- (375299968947541 / 2 ^ 49))"
    by (simp add: round_half_even_def Let_def power_int_minus)
  finally show ?thesis by (simp only: fsub_def)
qed

lemma std_step_5: "fsub 15 (8256599316845909 / 2 ^ 49) = (187649984473771 / 2 ^ 49)"
proof -
  have "round_double (15 - (8256599316845909 / 2 ^ 49)) =
      of_int (round_half_even ((15 - (8256599316845909 / 2 ^ 49)) / 2 powi ((- 2) - 52))) * 2 powi ((- 2) - 52)"
    by (rule round_double_eval) simp_all
  also have "\<dots> = (187649984473771 / 2 ^ 49)"
    by (simp add: round_half_even_def Let_def power_int_minus)
  finally show ?thesis by (simp only: fsub_def)
qed

lemma std_step_6: "fsub 18 (8256599316845909 / 2 ^ 49) = (1876499844737707 / 2 ^ 49)"
proof -
  have "round_double (18 - (8256599316845909 / 2 ^ 49)) =
      of_int (round_half_even ((18 - (8256599316845909 / 2 ^ 49)) / 2 powi (1 - 52))) * 2 powi (1 - 52)"
    by (rule round_double_eval) simp_all
  also have "\<dots> = (1876499844737707 / 2 ^ 49)"
    by (simp add: round_half_even_def Let_def power_int_minus)
  finally show ?thesis by (simp only: fsub_def)
qed

lemma std_step_7: "fsub 19 (8256599316845909 / 2 ^ 49) = (2439449798159019 / 2 ^ 49)"
proof -
  have "round_double (19 - (8256599316845909 / 2 ^ 49)) =
      of_int (round_half_even ((19 - (8256599316845909 / 2 ^ 49)) / 2 powi (2 - 52))) * 2 powi (2 - 52)"
    by (rule round_double_eval) simp_all
  also have "\<dots> = (2439449798159019 / 2 ^ 49)"
    by (simp add: round_half_even_def Let_def power_int_minus)
  finally show ?thesis by (simp only: fsub_def)
qed

lemma std_step_8: "fsub 20 (8256599316845909 / 2 ^ 49) = (3002399751580331 / 2 ^ 49)"
proof -
  have "round_double (20 - (8256599316845909 / 2 ^ 49)) =
      of_int (round_half_even ((20 - (8256599316845909 / 2 ^ 49)) / 2 powi (2 - 52))) * 2 powi (2 - 52)"
    by (rule round_double_eval) simp_all
  also have "\<dots> = (3002399751580331 / 2 ^ 49)"
    by (simp add: round_half_even_def Let_def power_int_minus)
  finally show ?thesis by (simp only: fsub_def)
qed

lemma std_step_9: "fsub 22 (8256599316845909 / 2 ^ 49) = (4128299658422955 / 2 ^ 49)"
proof -
  have "round_double (22 - (8256599316845909 / 2 ^ 49)) =
      of_int (round_half_even ((22 - (8256599316845909 / 2 ^ 49)) / 2 powi (2 - 52))) * 2 powi (2 - 52)"
    by (rule round_double_eval) simp_all
  also have "\<dots> = (4128299658422955 / 2 ^ 49)"
    by (simp add: round_half_even_def Let_def power_int_minus)
  finally show ?thesis by (simp only: fsub_def)
qed

lemma std_step_10: "fmul (- (6567749456581973 / 2 ^ 49)) (- (6567749456581973 / 2 ^ 49)) = (598622997344711 / 2 ^ 42)"
proof -
  have "round_double ((- (6567749456581973 / 2 ^ 49)) * (- (6567749456581973 / 2 ^ 49))) =
      of_int (round_half_even (((- (6567749456581973 / 2 ^ 49)) * (- (6567749456581973 / 2 ^ 49))) / 2 powi (7 - 52))) * 2 powi (7 - 52)"
    by (rule round_double_eval) simp_all
  also have "\<dots> = (598622997344711 / 2 ^ 42)"
    by (simp add: round_half_even_def Let_def power_int_minus)
  finally show ?thesis by (simp only: fmul_def)
qed

lemma std_step_11: "fmul (- (4878899596318037 / 2 ^ 49)) (- (4878899596318037 / 2 ^ 49)) = (5285474562677873 / 2 ^ 46)"
proof -
  have "round_double ((- (4878899596318037 / 2 ^ 49)) * (- (4878899596318037 / 2 ^ 49))) =
      of_int (round_half_even (((- (4878899596318037 / 2 ^ 49)) * (- (4878899596318037 / 2 ^ 49))) / 2 powi (6 - 52))) * 2 powi (6 - 52)"
    by (rule round_double_eval) simp_all
  also have "\<dots> = (5285474562677873 / 2 ^ 46)"
    by (simp add: round_half_even_def Let_def power_int_minus)
  finally show ?thesis by (simp only: fmul_def)
qed

lemma std_step_12: "fmul (- (375299968947541 / 2 ^ 49)) (- (375299968947541 / 2 ^ 49)) = (4003199668773767 / 2 ^ 53)"
proof -
  have "round_double ((- (375299968947541 / 2 ^ 49)) * (- (375299968947541 / 2 ^ 49))) =
      of_int (round_half_even (((- (375299968947541 / 2 ^ 49)) * (- (375299968947541 / 2 ^ 49))) / 2 powi ((- 2) - 52))) * 2 powi ((- 2) - 52)"
    by (rule round_double_eval) simp_all
  also have "\<dots> = (4003199668773767 / 2 ^ 53)"
    by (simp add: round_half_even_def Let_def power_int_minus)
  finally show ?thesis by (simp only: fmul_def)
qed

lemma std_step_13: "fmul (187649984473771 / 2 ^ 49) (187649984473771 / 2 ^ 49) = (8006399337547577 / 2 ^ 56)"
proof -
  have "round_double ((187649984473771 / 2 ^ 49) * (187649984473771 / 2 ^ 49)) =
      of_int (round_half_even (((187649984473771 / 2 ^ 49) * (187649984473771 / 2 ^ 49)) / 2 powi ((- 4) - 52))) * 2 powi ((- 4) - 52)"
    by (rule round_double_eval) simp_all
  also have "\<dots> = (8006399337547577 / 2 ^ 56)"
    by (simp add: round_half_even_def Let_def power_int_minus)
  finally show ?thesis by (simp only: fmul_def)
qed

lemma std_step_14: "fmul (1876499844737707 / 2 ^ 49) (1876499844737707 / 2 ^ 49) = (390937467653689 / 2 ^ 45)"
proof -
  have "round_double ((1876499844737707 / 2 ^ 49) * (1876499844737707 / 2 ^ 49)) =
      of_int (round_half_even (((1876499844737707 / 2 ^ 49) * (1876499844737707 / 2 ^ 49)) / 2 powi (3 - 52))) * 2 powi (3 - 52)"
    by (rule round_double_eval) simp_all
  also have "\<dots> = (390937467653689 / 2 ^ 45)"
    by (simp add: round_half_even_def Let_def power_int_minus)
  finally show ?thesis by (simp only: fmul_def)
qed

lemma std_step_15: "fmul (2439449798159019 / 2 ^ 49) (2439449798159019 / 2 ^ 49) = (5285474562677875 / 2 ^ 48)"
proof -
  have "round_double ((2439449798159019 / 2 ^ 49) * (2439449798159019 / 2 ^ 49)) =
      of_int (round_half_even (((2439449798159019 / 2 ^ 49) * (2439449798159019 / 2 ^ 49)) / 2 powi (4 - 52))) * 2 powi (4 - 52)"
    by (rule round_double_eval) simp_all
  also have "\<dots> = (5285474562677875 / 2 ^ 48)"
    by (simp add: round_half_even_def Let_def power_int_minus)
  finally show ?thesis by (simp only: fmul_def)
qed

lemma std_step_16: "fmul (3002399751580331 / 2 ^ 49) (3002399751580331 / 2 ^ 49) = (4003199668773775 / 2 ^ 47)"
proof -
  have "round_double ((3002399751580331 / 2 ^ 49) * (3002399751580331 / 2 ^ 49)) =
      of_int (round_half_even (((3002399751580331 / 2 ^ 49) * (3002399751580331 / 2 ^ 49)) / 2 powi (4 - 52))) * 2 powi (4 - 52)"
    by (rule round_double_eval) simp_all
  also have "\<dots> = (4003199668773775 / 2 ^ 47)"
    by (simp add: round_half_even_def Let_def power_int_minus)
  finally show ?thesis by (simp only: fmul_def)
qed

lemma std_step_17: "fmul (4128299658422955 / 2 ^ 49) (4128299658422955 / 2 ^ 49) = (3784274686887709 / 2 ^ 46)"
proof -
  have "round_double ((4128299658422955 / 2 ^ 49) * (4128299658422955 / 2 ^ 49)) =
      of_int (round_half_even (((4128299658422955 / 2 ^ 49) * (4128299658422955 / 2 ^ 49)) / 2 powi (5 - 52))) * 2 powi (5 - 52)"
    by (rule round_double_eval) simp_all
  also have "\<dots> = (3784274686887709 / 2 ^ 46)"
    by (simp add: round_half_even_def Let_def power_int_minus)
  finally show ?thesis by (simp only: fmul_def)
qed

lemma std_step_18: "fadd (598622997344711 / 2 ^ 42) (5285474562677873 / 2 ^ 46) = (464482578756039 / 2 ^ 41)"
proof -
  have "round_double ((598622997344711 / 2 ^ 42) + (5285474562677873 / 2 ^ 46)) =
      of_int (round_half_even (((598622997344711 / 2 ^ 42) + (5285474562677873 / 2 ^ 46)) / 2 powi (7 - 52))) * 2 powi (7 - 52)"
    by (rule round_double_eval) simp_all
  also have "\<dots> = (464482578756039 / 2 ^ 41)"
    by (simp add: round_half_even_def Let_def power_int_minus)
  finally show ?thesis by (simp only: fadd_def)
qed

lemma std_step_19: "fadd (4003199668773767 / 2 ^ 53) (8006399337547577 / 2 ^ 56) = (2501999792983607 / 2 ^ 52)"
proof -
  have "round_double ((4003199668773767 / 2 ^ 53) + (8006399337547577 / 2 ^ 56)) =
      of_int (round_half_even (((4003199668773767 / 2 ^ 53) + (8006399337547577 / 2 ^ 56)) / 2 powi ((- 1) - 52))) * 2 powi ((- 1) - 52)"
    by (rule round_double_eval) simp_all
  also have "\<dots> = (2501999792983607 / 2 ^ 52)"
    by (simp add: round_half_even_def Let_def power_int_minus)
  finally show ?thesis by (simp only: fadd_def)
qed

lemma std_step_20: "fadd (8006399337547577 / 2 ^ 56) (390937467653689 / 2 ^ 45) = (3158774738641807 / 2 ^ 48)"
proof -
  have "round_double ((8006399337547577 / 2 ^ 56) + (390937467653689 / 2 ^ 45)) =
      of_int (round_half_even (((8006399337547577 / 2 ^ 56) + (390937467653689 / 2 ^ 45)) / 2 powi (3 - 52))) * 2 powi (3 - 52)"
    by (rule round_double_eval) simp_all
  also have "\<dots> = (3158774738641807 / 2 ^ 48)"
    by (simp add: round_half_even_def Let_def power_int_minus)
  finally show ?thesis by (simp only: fadd_def)
qed

lemma std_step_21: "fadd (5285474562677875 / 2 ^ 48) (4003199668773775 / 2 ^ 47) = (830742118764089 / 2 ^ 44)"
proof -
  have "round_double ((5285474562677875 / 2 ^ 48) + (4003199668773775 / 2 ^ 47)) =
      of_int (round_half_even (((5285474562677875 / 2 ^ 48) + (4003199668773775 / 2 ^ 47)) / 2 powi (5 - 52))) * 2 powi (5 - 52)"
    by (rule round_double_eval) simp_all
  also have "\<dots> = (830742118764089 / 2 ^ 44)"
    by (simp add: round_half_even_def Let_def power_int_minus)
  finally show ?thesis by (simp only: fadd_def)
qed

lemma std_step_22: "fadd (464482578756039 / 2 ^ 41) (2501999792983607 / 2 ^ 52) = (1862817033369827 / 2 ^ 43)"
proof -
  have "round_double ((464482578756039 / 2 ^ 41) + (2501999792983607 / 2 ^ 52)) =
      of_int (round_half_even (((464482578756039 / 2 ^ 41) + (2501999792983607 / 2 ^ 52)) / 2 powi (7 - 52))) * 2 powi (7 - 52)"
    by (rule round_double_eval) simp_all
  also have "\<dots> = (1862817033369827 / 2 ^ 43)"
    by (simp add: round_half_even_def Let_def power_int_minus)
  finally show ?thesis by (simp only: fadd_def)
qed

lemma std_step_23: "fadd (3158774738641807 / 2 ^ 48) (830742118764089 / 2 ^ 44) = (514082769964601 / 2 ^ 43)"
proof -
  have "round_double ((3158774738641807 / 2 ^ 48) + (830742118764089 / 2 ^ 44)) =
      of_int (round_half_even (((3158774738641807 / 2 ^ 48) + (830742118764089 / 2 ^ 44)) / 2 powi (5 - 52))) * 2 powi (5 - 52)"
    by (rule round_double_eval) simp_all
  also have "\<dots> = (514082769964601 / 2 ^ 43)"
    by (simp add: round_half_even_def Let_def power_int_minus)
  finally show ?thesis by (simp only: fadd_def)
qed

lemma std_step_24: "fadd (1862817033369827 / 2 ^ 43) (514082769964601 / 2 ^ 43) = (594224950833607 / 2 ^ 41)"
proof -
  have "round_double ((1862817033369827 / 2 ^ 43) + (514082769964601 / 2 ^ 43)) =
      of_int (round_half_even (((1862817033369827 / 2 ^ 43) + (514082769964601 / 2 ^ 43)) / 2 powi (8 - 52))) * 2 powi (8 - 52)"
    by (rule round_double_eval) simp_all
  also have "\<dots> = (594224950833607 / 2 ^ 41)"
    by (simp add: round_half_even_def Let_def power_int_minus)
  finally show ?thesis by (simp only: fadd_def)
qed

lemma std_step_25: "fadd (594224950833607 / 2 ^ 41) (3784274686887709 / 2 ^ 46) = (5699868278390783 / 2 ^ 44)"
proof -
  have "round_double ((594224950833607 / 2 ^ 41) + (3784274686887709 / 2 ^ 46)) =
      of_int (round_half_even (((594224950833607 / 2 ^ 41) + (3784274686887709 / 2 ^ 46)) / 2 powi (8 - 52))) * 2 powi (8 - 52)"
    by (rule round_double_eval) simp_all
  also have "\<dots> = (5699868278390783 / 2 ^ 44)"
    by (simp add: round_half_even_def Let_def power_int_minus)
  finally show ?thesis by (simp only: fadd_def)
qed

lemma std_step_26: "fdiv (5699868278390783 / 2 ^ 44) 9 = (5066549580791807 / 2 ^ 47)"
proof -
  have "round_double ((5699868278390783 / 2 ^ 44) / 9) =
      of_int (round_half_even (((5699868278390783 / 2 ^ 44) / 9) / 2 powi (5 - 52))) * 2 powi (5 - 52)"
    by (rule round_double_eval) simp_all
  also have "\<dots> = (5066549580791807 / 2 ^ 47)"
    by (simp add: round_half_even_def Let_def power_int_minus)
  finally show ?thesis by (simp only: fdiv_def)
qed

lemma std_step_27: "fsqrt (5066549580791807 / 2 ^ 47) = (6755399441055743 / 2 ^ 50)"
proof -
  have "round_half_even (sqrt (5066549580791807 / 2 ^ 47) / 2 powi (2 - 52)) = 6755399441055743"
    by (rule round_half_even_sqrt) (simp_all add: power_int_minus power2_eq_square)
  moreover have "round_double (sqrt (5066549580791807 / 2 ^ 47)) =
      of_int (round_half_even (sqrt (5066549580791807 / 2 ^ 47) / 2 powi (2 - 52))) * 2 powi (2 - 52)"
    by (rule round_double_eval_sqrt) (simp_all add: power_int_minus power2_eq_square)
  ultimately show ?thesis by (simp add: fsqrt_def power_int_minus)
qed

lemma std_step_28: "fdiv (6755399441055743 / 2 ^ 50) 40 = (2702159776422297 / 2 ^ 54)"
proof -
  have "round_double ((6755399441055743 / 2 ^ 50) / 40) =
      of_int (round_half_even (((6755399441055743 / 2 ^ 50) / 40) / 2 powi ((- 3) - 52))) * 2 powi ((- 3) - 52)"
    by (rule round_double_eval) simp_all
  also have "\<dots> = (2702159776422297 / 2 ^ 54)"
    by (simp add: round_half_even_def Let_def power_int_minus)
  finally show ?thesis by (simp only: fdiv_def)
qed

lemma std_step_29: "fadd (8006399337547577 / 2 ^ 56) (3784274686887709 / 2 ^ 46) = (3792093436240783 / 2 ^ 46)"
proof -
  have "round_double ((8006399337547577 / 2 ^ 56) + (3784274686887709 / 2 ^ 46)) =
      of_int (round_half_even (((8006399337547577 / 2 ^ 56) + (3784274686887709 / 2 ^ 46)) / 2 powi (5 - 52))) * 2 powi (5 - 52)"
    by (rule round_double_eval) simp_all
  also have "\<dots> = (3792093436240783 / 2 ^ 46)"
    by (simp add: round_half_even_def Let_def power_int_minus)
  finally show ?thesis by (simp only: fadd_def)
qed

lemma std_step_30: "fadd (390937467653689 / 2 ^ 45) (598622997344711 / 2 ^ 42) = (5179921446411377 / 2 ^ 45)"
proof -
  have "round_double ((390937467653689 / 2 ^ 45) + (598622997344711 / 2 ^ 42)) =
      of_int (round_half_even (((390937467653689 / 2 ^ 45) + (598622997344711 / 2 ^ 42)) / 2 powi (7 - 52))) * 2 powi (7 - 52)"
    by (rule round_double_eval) simp_all
  also have "\<dots> = (5179921446411377 / 2 ^ 45)"
    by (simp add: round_half_even_def Let_def power_int_minus)
  finally show ?thesis by (simp only: fadd_def)
qed

lemma std_step_31: "fadd (4003199668773775 / 2 ^ 47) (8006399337547577 / 2 ^ 56) = (8037674334959845 / 2 ^ 48)"
proof -
  have "round_double ((4003199668773775 / 2 ^ 47) + (8006399337547577 / 2 ^ 56)) =
      of_int (round_half_even (((4003199668773775 / 2 ^ 47) + (8006399337547577 / 2 ^ 56)) / 2 powi (4 - 52))) * 2 powi (4 - 52)"
    by (rule round_double_eval) simp_all
  also have "\<dots> = (8037674334959845 / 2 ^ 48)"
    by (simp add: round_half_even_def Let_def power_int_minus)
  finally show ?thesis by (simp only: fadd_def)
qed

lemma std_step_32: "fadd (5285474562677875 / 2 ^ 48) (4003199668773767 / 2 ^ 53) = (5410574552327055 / 2 ^ 48)"
proof -
  have "round_double ((5285474562677875 / 2 ^ 48) + (4003199668773767 / 2 ^ 53)) =
      of_int (round_half_even (((5285474562677875 / 2 ^ 48) + (4003199668773767 / 2 ^ 53)) / 2 powi (4 - 52))) * 2 powi (4 - 52)"
    by (rule round_double_eval) simp_all
  also have "\<dots> = (5410574552327055 / 2 ^ 48)"
    by (simp add: round_half_even_def Let_def power_int_minus)
  finally show ?thesis by (simp only: fadd_def)
qed

lemma std_step_33: "fadd (3792093436240783 / 2 ^ 46) (5179921446411377 / 2 ^ 45) = (884496020566471 / 2 ^ 42)"
proof -
  have "round_double ((3792093436240783 / 2 ^ 46) + (5179921446411377 / 2 ^ 45)) =
      of_int (round_half_even (((3792093436240783 / 2 ^ 46) + (5179921446411377 / 2 ^ 45)) / 2 powi (7 - 52))) * 2 powi (7 - 52)"
    by (rule round_double_eval) simp_all
  also have "\<dots> = (884496020566471 / 2 ^ 42)"
    by (simp add: round_half_even_def Let_def power_int_minus)
  finally show ?thesis by (simp only: fadd_def)
qed

lemma std_step_34: "fadd (8037674334959845 / 2 ^ 48) (5410574552327055 / 2 ^ 48) = (3362062221821725 / 2 ^ 46)"
proof -
  have "round_double ((8037674334959845 / 2 ^ 48) + (5410574552327055 / 2 ^ 48)) =
      of_int (round_half_even (((8037674334959845 / 2 ^ 48) + (5410574552327055 / 2 ^ 48)) / 2 powi (5 - 52))) * 2 powi (5 - 52)"
    by (rule round_double_eval) simp_all
  also have "\<dots> = (3362062221821725 / 2 ^ 46)"
    by (simp add: round_half_even_def Let_def power_int_minus)
  finally show ?thesis by (simp only: fadd_def)
qed

lemma std_step_35: "fadd (884496020566471 / 2 ^ 42) (3362062221821725 / 2 ^ 46) = (4378499637721315 / 2 ^ 44)"
proof -
  have "round_double ((884496020566471 / 2 ^ 42) + (3362062221821725 / 2 ^ 46)) =
      of_int (round_half_even (((884496020566471 / 2 ^ 42) + (3362062221821725 / 2 ^ 46)) / 2 powi (7 - 52))) * 2 powi (7 - 52)"
    by (rule round_double_eval) simp_all
  also have "\<dots> = (4378499637721315 / 2 ^ 44)"
    by (simp add: round_half_even_def Let_def power_int_minus)
  finally show ?thesis by (simp only: fadd_def)
qed

lemma std_step_36: "fadd (4378499637721315 / 2 ^ 44) (5285474562677873 / 2 ^ 46) = (5699868278390783 / 2 ^ 44)"
proof -
  have "round_double ((4378499637721315 / 2 ^ 44) + (5285474562677873 / 2 ^ 46)) =
      of_int (round_half_even (((4378499637721315 / 2 ^ 44) + (5285474562677873 / 2 ^ 46)) / 2 powi (8 - 52))) * 2 powi (8 - 52)"
    by (rule round_double_eval) simp_all
  also have "\<dots> = (5699868278390783 / 2 ^ 44)"
    by (simp add: round_half_even_def Let_def power_int_minus)
  finally show ?thesis by (simp only: fadd_def)
qed

lemma std_step_37: "round_double (0.15) = (5404319552844595 / 2 ^ 55)"
proof -
  have "round_double (0.15) =
      of_int (round_half_even ((0.15) / 2 powi ((- 3) - 52))) * 2 powi ((- 3) - 52)"
    by (rule round_double_eval) simp_all
  also have "\<dots> = (5404319552844595 / 2 ^ 55)"
    by (simp add: round_half_even_def Let_def power_int_minus)
  finally show ?thesis .
qed

lemma std_step_38: "round_double (0.7) = (3152519739159347 / 2 ^ 52)"
proof -
  have "round_double (0.7) =
      of_int (round_half_even ((0.7) / 2 powi ((- 1) - 52))) * 2 powi ((- 1) - 52)"
    by (rule round_double_eval) simp_all
  also have "\<dots> = (3152519739159347 / 2 ^ 52)"
    by (simp add: round_half_even_def Let_def power_int_minus)
  finally show ?thesis .
qed

lemma std_step_39: "round_double (0.3) = (5404319552844595 / 2 ^ 54)"
proof -
  have "round_double (0.3) =
      of_int (round_half_even ((0.3) / 2 powi ((- 2) - 52))) * 2 powi ((- 2) - 52)"
    by (rule round_double_eval) simp_all
  also have "\<dots> = (5404319552844595 / 2 ^ 54)"
    by (simp add: round_half_even_def Let_def power_int_minus)
  finally show ?thesis .
qed

lemma std_step_40: "fdiv 19 40 = (4278419646001971 / 2 ^ 53)"
proof -
  have "round_double (19 / 40) =
      of_int (round_half_even ((19 / 40) / 2 powi ((- 2) - 52))) * 2 powi ((- 2) - 52)"
    by (rule round_double_eval) simp_all
  also have "\<dots> = (4278419646001971 / 2 ^ 53)"
    by (simp add: round_half_even_def Let_def power_int_minus)
  finally show ?thesis by (simp only: fdiv_def)
qed

lemma np_std_example_y: "np_std [3, 6, 14, 15, 15, 18, 19, 20, 22] = (6755399441055743 / 2 ^ 50)"
proof -
  have s: "sum_list [3, 6, 14, 15, 15, 18, 19, 20, 22] = (132 :: nat)" "length [3, 6, 14, 15, 15, 18, 19, 20, 22] = 9" by simp_all
  have d: "double_of_nat 132 = 132" "double_of_nat 9 = 9" "double_of_nat 3 = 3" "double_of_nat 6 = 6" "double_of_nat 14 = 14" "double_of_nat 15 = 15" "double_of_nat 18 = 18" "double_of_nat 19 = 19" "double_of_nat 20 = 20" "double_of_nat 22 = 22"
    by (simp_all add: double_of_nat_small)
  show ?thesis
    unfolding np_std_def Let_def s d list.map pairwise_sum_nine
    by (simp only: std_step_1 std_step_2 std_step_3 std_step_4 std_step_5 std_step_6 std_step_7 std_step_8 std_step_9 std_step_10 std_step_11 std_step_12 std_step_13 std_step_14 std_step_15 std_step_16 std_step_17 std_step_18 std_step_19 std_step_20 std_step_21 std_step_22 std_step_23 std_step_24 std_step_25 std_step_26 std_step_27 std_step_28 std_step_29 std_step_30 std_step_31 std_step_32 std_step_33 std_step_34 std_step_35 std_step_36 std_step_37 std_step_38 std_step_39 std_step_40)
qed

lemma normalized_std_example_y: "normalized_std [3, 6, 14, 15, 15, 18, 19, 20, 22] 40 = (2702159776422297 / 2 ^ 54)"
  unfolding normalized_std_def np_std_example_y
  by (simp only: double_of_nat_forty std_step_1 std_step_2 std_step_3 std_step_4 std_step_5 std_step_6 std_step_7 std_step_8 std_step_9 std_step_10 std_step_11 std_step_12 std_step_13 std_step_14 std_step_15 std_step_16 std_step_17 std_step_18 std_step_19 std_step_20 std_step_21 std_step_22 std_step_23 std_step_24 std_step_25 std_step_26 std_step_27 std_step_28 std_step_29 std_step_30 std_step_31 std_step_32 std_step_33 std_step_34 std_step_35 std_step_36 std_step_37 std_step_38 std_step_39 std_step_40)

lemma np_std_example_x: "np_std [15, 22, 18, 3, 20, 15, 19, 14, 6] = (6755399441055743 / 2 ^ 50)"
proof -
  have s: "sum_list [15, 22, 18, 3, 20, 15, 19, 14, 6] = (132 :: nat)" "length [15, 22, 18, 3, 20, 15, 19, 14, 6] = 9" by simp_all
  have d: "double_of_nat 132 = 132" "double_of_nat 9 = 9" "double_of_nat 3 = 3" "double_of_nat 6 = 6" "double_of_nat 14 = 14" "double_of_nat 15 = 15" "double_of_nat 18 = 18" "double_of_nat 19 = 19" "double_of_nat 20 = 20" "double_of_nat 22 = 22"
    by (simp_all add: double_of_nat_small)
  show ?thesis
    unfolding np_std_def Let_def s d list.map pairwise_sum_nine
    by (simp only: std_step_1 std_step_2 std_step_3 std_step_4 std_step_5 std_step_6 std_step_7 std_step_8 std_step_9 std_step_10 std_step_11 std_step_12 std_step_13 std_step_14 std_step_15 std_step_16 std_step_17 std_step_18 std_step_19 std_step_20 std_step_21 std_step_22 std_step_23 std_step_24 std_step_25 std_step_26 std_step_27 std_step_28 std_step_29 std_step_30 std_step_31 std_step_32 std_step_33 std_step_34 std_step_35 std_step_36 std_step_37 std_step_38 std_step_39 std_step_40)
qed

lemma normalized_std_example_x: "normalized_std [15, 22, 18, 3, 20, 15, 19, 14, 6] 40 = (2702159776422297 / 2 ^ 54)"
  unfolding normalized_std_def np_std_example_x
  by (simp only: double_of_nat_forty std_step_1 std_step_2 std_step_3 std_step_4 std_step_5 std_step_6 std_step_7 std_step_8 std_step_9 std_step_10 std_step_11 std_step_12 std_step_13 std_step_14 std_step_15 std_step_16 std_step_17 std_step_18 std_step_19 std_step_20 std_step_21 std_step_22 std_step_23 std_step_24 std_step_25 std_step_26 std_step_27 std_step_28 std_step_29 std_step_30 std_step_31 std_step_32 std_step_33 std_step_34 std_step_35 std_step_36 std_step_37 std_step_38 std_step_39 std_step_40)

subsection \<open>The error of a pairwise sum\<close>














subsection \<open>The error of the computed variance\<close>








subsection \<open>The three tests of the classifier\<close>












subsection \<open>The classification\<close>

lemma exact_std_eval:
  assumes "0 \<le> s"
    and "sum_list (map (\<lambda>z. (real z - exact_mean zs)\<^sup>2) zs) / real (length zs) = s\<^sup>2"
  shows "exact_std zs = s"
  unfolding exact_std_def assms(2) using assms(1) by simp

lemma exact_std_nine:
  "exact_std [3, 6, 14, 15, 15, 18, 19, 20, 22] = 6"
  "exact_std [15, 22, 18, 3, 20, 15, 19, 14, 6] = 6"
  by (rule exact_std_eval; simp add: exact_mean_def power2_eq_square)+

lemma exact_spread_nine:
  "exact_spread [3, 6, 14, 15, 15, 18, 19, 20, 22] 40 = 19 / 40"
  "exact_spread [15, 22, 18, 3, 20, 15, 19, 14, 6] 40 = 19 / 40"
  by (simp_all add: exact_spread_def np_max_def np_min_def)

lemma normalized_spread_nine:
  "normalized_spread [3, 6, 14, 15, 15, 18, 19, 20, 22] 40 = 4278419646001971 / 2 ^ 53"
  "normalized_spread [15, 22, 18, 3, 20, 15, 19, 14, 6] 40 = 4278419646001971 / 2 ^ 53"
proof -
  have d: "double_of_nat 19 = 19" "double_of_nat 40 = 40"
    using double_of_nat_small [of 19] double_of_nat_small [of 40] by simp_all
  have "np_max [3, 6, 14, 15, 15, 18, 19, 20, 22] - np_min [3, 6, 14, 15, 15, 18, 19, 20, 22] = 19"
    by (simp add: np_max_def np_min_def)
  then show "normalized_spread [3, 6, 14, 15, 15, 18, 19, 20, 22] 40 = 4278419646001971 / 2 ^ 53"
    unfolding normalized_spread_def by (simp only: d std_step_40)
  have "np_max [15, 22, 18, 3, 20, 15, 19, 14, 6] - np_min [15, 22, 18, 3, 20, 15, 19, 14, 6] = 19"
    by (simp add: np_max_def np_min_def)
  then show "normalized_spread [15, 22, 18, 3, 20, 15, 19, 14, 6] 40 = 4278419646001971 / 2 ^ 53"
    unfolding normalized_spread_def by (simp only: d std_step_40)
qed

text \<open>
  C7, where the specification and the code part. Nine pixels of a 40 by 40 image with
  coordinates of exact standard deviation 6 on both axes: the normalized deviation is
  exactly 0.15, not below it, and the spreads are 19/40, so the specification's chain ends in
  \<open>scattered\<close>; \<open>np.std\<close> returns 5.999999999999999, its quotient by 40 is below the
  double 0.15, and \<open>_classify_distribution\<close> answers \<open>concentrated\<close>.
\<close>

theorem classify_distribution_rounding:
  "classify_distribution [3, 6, 14, 15, 15, 18, 19, 20, 22] [15, 22, 18, 3, 20, 15, 19, 14, 6] 40 40
     = ''concentrated'' \<and>
   distribution_by_spec [3, 6, 14, 15, 15, 18, 19, 20, 22] [15, 22, 18, 3, 20, 15, 19, 14, 6] 40 40
     = ''scattered''"
proof
  show "classify_distribution [3, 6, 14, 15, 15, 18, 19, 20, 22]
          [15, 22, 18, 3, 20, 15, 19, 14, 6] 40 40 = ''concentrated''"
    unfolding classify_distribution_def Let_def normalized_spread_nine
      normalized_std_example_y normalized_std_example_x std_step_37 std_step_38 std_step_39
    by simp
  show "distribution_by_spec [3, 6, 14, 15, 15, 18, 19, 20, 22]
          [15, 22, 18, 3, 20, 15, 19, 14, 6] 40 40 = ''scattered''"
    unfolding distribution_by_spec_def exact_spread_nine exact_std_nine by simp
qed





section \<open>The cluster that fills the image\<close>

lemma filter_rows:
  assumes "0 < width"
  shows "length (filter (\<lambda>i. Q (i div width)) [0..<height * width]) =
         width * length (filter Q [0..<height])"
proof (induction height)
  case 0
  then show ?case by simp
next
  case (Suc h)
  have split: "[0..<Suc h * width] = [0..<h * width] @ [h * width..<h * width + width]"
    using upt_add_eq_append [of 0 "h * width" width] by (simp add: add.commute)
  have row: "\<forall>i \<in> set [h * width..<h * width + width]. i div width = h"
    using assms by (auto simp: div_nat_eqI mult.commute)
  have "filter (\<lambda>i. Q (i div width)) [h * width..<h * width + width] =
        (if Q h then [h * width..<h * width + width] else [])"
    using row by (auto simp: filter_empty_conv filter_id_conv)
  then have last: "length (filter (\<lambda>i. Q (i div width)) [h * width..<h * width + width]) =
        (if Q h then width else 0)" by simp
  have "length (filter (\<lambda>i. Q (i div width)) [0..<Suc h * width]) =
        length (filter (\<lambda>i. Q (i div width)) [0..<h * width]) +
        length (filter (\<lambda>i. Q (i div width)) [h * width..<h * width + width])"
    by (simp only: split filter_append length_append)
  also have "\<dots> = width * length (filter Q [0..<h]) + (if Q h then width else 0)"
    by (simp only: Suc last)
  also have "\<dots> = width * length (filter Q [0..<Suc h])" by simp
  finally show ?case .
qed

lemma filter_prefix:
  assumes "m \<le> n" "\<forall>i < m. Q i"
  shows "m \<le> length (filter Q [0..<n])"
proof -
  have split: "[0..<n] = [0..<m] @ [m..<n]"
    using upt_add_eq_append [of 0 m "n - m"] assms(1) by simp
  have "filter Q [0..<m] = [0..<m]" using assms(2) by (simp add: filter_id_conv)
  then show ?thesis by (simp add: split)
qed

lemma filter_suffix:
  assumes "\<forall>i. m \<le> i \<and> i < n \<longrightarrow> Q i"
  shows "n - m \<le> length (filter Q [0..<n])"
proof (cases "m \<le> n")
  case False
  then show ?thesis by simp
next
  case True
  have split: "[0..<n] = [0..<m] @ [m..<n]"
    using upt_add_eq_append [of 0 m "n - m"] True by simp
  have "filter Q [m..<n] = [m..<n]" using assms by (simp add: filter_id_conv)
  then show ?thesis by (simp add: split)
qed

lemma rows_of_image:
  assumes "0 < width"
  shows "set (map (\<lambda>i. i div width) [0..<height * width]) = {0..<height}"
proof (rule set_eqI, rule iffI)
  fix y assume "y \<in> set (map (\<lambda>i. i div width) [0..<height * width])"
  then obtain i where "i < height * width" "y = i div width" by auto
  then show "y \<in> {0..<height}" using assms by (simp add: less_mult_imp_div_less)
next
  fix y assume "y \<in> {0..<height}"
  then have "y * width < height * width" using assms by simp
  moreover have "(y * width) div width = y" using assms by simp
  ultimately show "y \<in> set (map (\<lambda>i. i div width) [0..<height * width])"
    by (metis (mono_tags, lifting) atLeastLessThan_iff atLeastLessThan_upt image_eqI le0 set_map)
qed

lemma columns_of_image:
  assumes "0 < height"
  shows "set (map (\<lambda>i. i mod width) [0..<height * width]) = {0..<width}"
proof (cases "width = 0")
  case True
  then show ?thesis by simp
next
  case False
  show ?thesis
  proof (rule set_eqI, rule iffI)
    fix x assume "x \<in> set (map (\<lambda>i. i mod width) [0..<height * width])"
    then show "x \<in> {0..<width}" using False by auto
  next
    fix x assume "x \<in> {0..<width}"
    then have x: "x < width" by simp
    then have "x < height * width" using assms
      by (metis One_nat_def Suc_leI less_le_trans mult.commute mult_le_mono2 nat_mult_1_right)
    moreover have "x mod width = x" using x by simp
    ultimately show "x \<in> set (map (\<lambda>i. i mod width) [0..<height * width])"
      by (metis (mono_tags, lifting) atLeastLessThan_iff atLeastLessThan_upt image_eqI le0 set_map)
  qed
qed

lemma max_min_range: "0 < n \<Longrightarrow> Max {0..<n} = n - 1 \<and> Min {0..<n} = (0::nat)"
proof -
  assume n: "0 < n"
  have "Max {0..<n} = n - 1" using n by (intro Max_eqI) auto
  moreover have "Min {0..<n} = 0" using n by (intro Min_eqI) auto
  ultimately show ?thesis by simp
qed

lemma whole_image_spread:
  assumes "0 < height" "0 < width"
  shows "np_max (map (\<lambda>i. i div width) [0..<height * width]) -
         np_min (map (\<lambda>i. i div width) [0..<height * width]) = height - 1"
    and "np_max (map (\<lambda>i. i mod width) [0..<height * width]) -
         np_min (map (\<lambda>i. i mod width) [0..<height * width]) = width - 1"
  unfolding np_max_def np_min_def rows_of_image [OF assms(2)] columns_of_image [OF assms(1)]
  using max_min_range [OF assms(1)] max_min_range [OF assms(2)] by simp_all

lemma representable_dyadic_nat:
  "n < 2 ^ 53 \<Longrightarrow> representable (real n / 2 ^ k)"
  by (rule representableI [of "int n" _ "- int k"])
     (simp_all add: power_int_minus divide_inverse flip: of_nat_less_iff)

lemma region_percentage_quarter:
  assumes "0 < total_pixels" "total_pixels < 2 ^ 53" "np_sum bs \<le> total_pixels"
    "total_pixels \<le> 4 * np_sum bs"
  shows "25 \<le> region_percentage bs total_pixels"
proof -
  define c where "c = real (np_sum bs)"
  define n where "n = real total_pixels"
  have small: "np_sum bs < 2 ^ 53" using assms(2,3) by simp
  have n0: "0 < n" using assms(1) by (simp add: n_def)
  have "n \<le> 4 * c" using assms(4) unfolding n_def c_def by (metis of_nat_le_iff of_nat_mult of_nat_numeral)
  then have q: "1 / 4 \<le> c / n" using n0 by (simp add: le_divide_eq)
  then have qpos: "0 < c / n" by linarith
  have r14: "representable (1 / 4)" using representable_dyadic_nat [of 1 2] by simp
  have r25: "representable 25" using representable_dyadic_nat [of 25 0] by simp
  have f: "1 / 4 \<le> round_double (c / n)" using qpos q r14 by (rule round_double_ge)
  then have "25 \<le> round_double (c / n) * 100" by simp
  moreover from this have "0 < round_double (c / n) * 100" by linarith
  ultimately have "25 \<le> round_double (round_double (c / n) * 100)"
    using r25 by (intro round_double_ge)
  then show ?thesis
    using small assms(2)
    by (simp add: region_percentage_def fmul_def fdiv_def double_of_nat_small c_def n_def)
qed

lemma spread_wide:
  assumes "4 \<le> n" "n < 2 ^ 53"
  shows "round_double 0.7 < fdiv (double_of_nat (n - 1)) (double_of_nat n)"
proof -
  have m: "n - 1 < 2 ^ 53" using assms(2) by simp
  have "3 * real n \<le> 4 * real (n - 1)" using assms(1) by (simp add: of_nat_diff)
  then have q: "3 / 4 \<le> real (n - 1) / real n" using assms(1) by (simp add: le_divide_eq)
  then have qpos: "0 < real (n - 1) / real n" by linarith
  have r34: "representable (3 / 4)" using representable_dyadic_nat [of 3 2] by simp
  have "3 / 4 \<le> round_double (real (n - 1) / real n)" using qpos q r34 by (rule round_double_ge)
  then show ?thesis
    using double_07 m assms(2) by (simp add: fdiv_def double_of_nat_small)
qed

lemma first_third_rows:
  assumes "4 \<le> height" "height < 2 ^ 53"
  shows "(height + 3) div 4 \<le>
         length (filter (\<lambda>y. double_of_nat y < fdiv (real height) 3) [0..<height])"
proof (rule filter_prefix)
  show "(height + 3) div 4 \<le> height" using assms(1) by simp
  have rep: "representable (real height / 2 ^ 2)" using assms(2) by (rule representable_dyadic_nat)
  have "real height / 2 ^ 2 \<le> round_double (real height / 3)"
    using assms(1) rep by (intro round_double_ge) simp_all
  then have b: "real height / 4 \<le> fdiv (real height) 3" by (simp add: fdiv_def)
  show "\<forall>y < (height + 3) div 4. double_of_nat y < fdiv (real height) 3"
  proof (intro allI impI)
    fix y assume y: "y < (height + 3) div 4"
    then have "4 * y < height" by simp
    then have "4 * real y < real height" by (metis of_nat_less_iff of_nat_mult of_nat_numeral)
    moreover have "y < 2 ^ 53" using y assms by simp
    ultimately show "double_of_nat y < fdiv (real height) 3"
      using b by (simp add: double_of_nat_small)
  qed
qed

lemma last_third_rows:
  assumes "4 \<le> height" "height < 2 ^ 53"
  shows "height - (2 * height + 2) div 3 \<le>
         length (filter (\<lambda>y. double_of_nat y \<ge> fdiv (real (2 * height)) 3) [0..<height])"
proof (rule filter_suffix)
  define q where "q = (2 * height + 2) div 3"
  have q: "q < 2 ^ 53" using assms by (simp add: q_def)
  have "2 * height \<le> 3 * q" by (simp add: q_def)
  then have "real (2 * height) \<le> 3 * real q" by (metis of_nat_le_iff of_nat_mult of_nat_numeral)
  then have le: "real (2 * height) / 3 \<le> real q" by simp
  have rep: "representable (real q)" using q by (rule representable_of_nat)
  have "round_double (real (2 * height) / 3) \<le> real q"
    using assms(1) le rep by (intro round_double_le) simp_all
  then have b: "fdiv (real (2 * height)) 3 \<le> real q" by (simp add: fdiv_def)
  show "\<forall>y. (2 * height + 2) div 3 \<le> y \<and> y < height \<longrightarrow>
          fdiv (real (2 * height)) 3 \<le> double_of_nat y"
  proof (intro allI impI)
    fix y assume y: "(2 * height + 2) div 3 \<le> y \<and> y < height"
    then have "y < 2 ^ 53" using assms(2) by simp
    moreover have "real q \<le> real y" using y by (simp add: q_def)
    ultimately show "fdiv (real (2 * height)) 3 \<le> double_of_nat y"
      using b by (simp add: double_of_nat_small)
  qed
qed

lemma last_third_quarter:
  assumes "(4::nat) \<le> h" "h \<noteq> 5"
  shows "h \<le> 4 * (h - (2 * h + 2) div 3)"
proof (cases "8 \<le> h")
  case True
  define d where "d = (2 * h + 2) div 3"
  have "3 * d \<le> 2 * h + 2" by (simp add: d_def)
  then show ?thesis using True unfolding d_def [symmetric] by linarith
next
  case False
  then have "h = 4 \<or> h = 6 \<or> h = 7" using assms by linarith
  then show ?thesis by auto
qed

lemma np_sum_map: "np_sum (map Q (map g idx)) = length (filter (\<lambda>i. Q (g i)) idx)"
  by (induction idx) (simp_all add: np_sum_def)

lemma whole_image_top:
  assumes "4 \<le> height" "0 < width" "height * width < 2 ^ 53"
  shows "25 \<le> region_percentage
           (first_third_mask (map (\<lambda>i. i div width) [0..<height * width]) height) (height * width)"
proof -
  have h: "height < 2 ^ 53"
    using assms by (metis One_nat_def Suc_leI le_less_trans mult.commute mult_le_mono2 nat_mult_1_right)
  define r where "r = length (filter (\<lambda>y. double_of_nat y < fdiv (real height) 3) [0..<height])"
  have c: "np_sum (first_third_mask (map (\<lambda>i. i div width) [0..<height * width]) height) = width * r"
    unfolding first_third_mask_def np_sum_map r_def using assms(2) by (rule filter_rows)
  have r1: "(height + 3) div 4 \<le> r" unfolding r_def using assms(1) h by (rule first_third_rows)
  have r2: "r \<le> height" unfolding r_def using length_filter_le [of _ "[0..<height]"] by simp
  have "height \<le> 4 * r" using r1 by simp
  then have big: "height * width \<le> 4 * (width * r)" by (simp add: mult.commute)
  have le: "width * r \<le> height * width" using r2 by (simp add: mult.commute)
  show ?thesis
    using assms by (intro region_percentage_quarter) (simp_all add: c big le)
qed

lemma whole_image_bottom:
  assumes "4 \<le> height" "height \<noteq> 5" "0 < width" "height * width < 2 ^ 53"
  shows "25 \<le> region_percentage
           (last_third_mask (map (\<lambda>i. i div width) [0..<height * width]) height) (height * width)"
proof -
  have h: "height < 2 ^ 53"
    using assms by (metis One_nat_def Suc_leI le_less_trans mult.commute mult_le_mono2 nat_mult_1_right)
  define r where "r = length (filter (\<lambda>y. double_of_nat y \<ge> fdiv (real (2 * height)) 3) [0..<height])"
  have c: "np_sum (last_third_mask (map (\<lambda>i. i div width) [0..<height * width]) height) = width * r"
    unfolding last_third_mask_def np_sum_map r_def using assms(3) by (rule filter_rows)
  have r1: "height - (2 * height + 2) div 3 \<le> r" unfolding r_def using assms(1) h by (rule last_third_rows)
  have r2: "r \<le> height" unfolding r_def using length_filter_le [of _ "[0..<height]"] by simp
  have "height \<le> 4 * (height - (2 * height + 2) div 3)"
    using assms(1,2) by (rule last_third_quarter)
  then have "height \<le> 4 * r" using r1 by simp
  then have big: "height * width \<le> 4 * (width * r)" by (simp add: mult.commute)
  have le: "width * r \<le> height * width" using r2 by (simp add: mult.commute)
  show ?thesis
    using assms by (intro region_percentage_quarter) (simp_all add: c big le)
qed

lemma describe_top_bottom:
  assumes "20 < cov_top cov" "20 < cov_bottom cov"
  shows "describe_regions cov' (find_primary_areas cov) = [''Top and bottom edges'']"
  using assms
  by (simp add: find_primary_areas_def describe_regions_def Let_def area_descriptions_def
      List.map_filter_simps)

lemma describe_top_middle:
  assumes "20 < cov_top cov" "20 < cov_middle cov" "\<not> 20 < cov_bottom cov"
  shows "describe_regions cov' (find_primary_areas cov) = [''Upper portion'', ''Middle section'']"
  using assms
  by (simp add: find_primary_areas_def describe_regions_def Let_def area_descriptions_def
      List.map_filter_simps)

lemma whole_image_cluster:
  assumes "0 < height * width"
  shows "analyze_color_location height width (replicate (height * width) c) c =
     (let y_coords = map (\<lambda>i. i div width) [0..<height * width];
          x_coords = map (\<lambda>i. i mod width) [0..<height * width];
          cov = analyze_regional_coverage y_coords x_coords height width
      in \<lparr>regions = describe_regions cov (find_primary_areas cov),
          distribution = classify_distribution y_coords x_coords height width,
          primary_areas = find_primary_areas cov, coverage = cov\<rparr>)"
proof -
  have "filter (\<lambda>i. replicate (height * width) c ! i = c) [0..<height * width] = [0..<height * width]"
    by (simp add: filter_id_conv)
  moreover have "[0..<height * width] \<noteq> []" using assms by simp
  ultimately show ?thesis by (simp add: analyze_color_location_def Let_def)
qed

lemma whole_image_widespread:
  assumes "4 \<le> height" "4 \<le> width" "height * width < 2 ^ 53"
  shows "classify_distribution (map (\<lambda>i. i div width) [0..<height * width])
           (map (\<lambda>i. i mod width) [0..<height * width]) height width = ''widespread''"
proof -
  have h0: "0 < height" and w0: "0 < width" using assms by simp_all
  have h: "height < 2 ^ 53"
    using assms by (metis One_nat_def Suc_leI le_less_trans mult.commute mult_le_mono2 nat_mult_1_right w0)
  have w: "width < 2 ^ 53"
    using assms by (metis One_nat_def Suc_leI le_less_trans mult_le_mono1 nat_mult_1 h0)
  have ne: "length (map (\<lambda>i. i div width) [0..<height * width]) \<noteq> 0" using h0 w0 by simp
  have y: "round_double 0.7 < normalized_spread (map (\<lambda>i. i div width) [0..<height * width]) height"
    unfolding normalized_spread_def whole_image_spread(1) [OF h0 w0]
    using assms(1) h by (rule spread_wide)
  have x: "round_double 0.7 < normalized_spread (map (\<lambda>i. i mod width) [0..<height * width]) width"
    unfolding normalized_spread_def whole_image_spread(2) [OF h0 w0]
    using assms(2) w by (rule spread_wide)
  show ?thesis unfolding classify_distribution_def Let_def using ne x y by simp
qed

lemma whole_image_coverage:
  assumes "0 < height * width"
  shows "cov_top (analyze_regional_coverage (map (\<lambda>i. i div width) [0..<height * width])
                   (map (\<lambda>i. i mod width) [0..<height * width]) height width) =
         region_percentage (first_third_mask (map (\<lambda>i. i div width) [0..<height * width]) height)
           (height * width)"
    and "cov_middle (analyze_regional_coverage (map (\<lambda>i. i div width) [0..<height * width])
                   (map (\<lambda>i. i mod width) [0..<height * width]) height width) =
         region_percentage (second_third_mask (map (\<lambda>i. i div width) [0..<height * width]) height)
           (height * width)"
    and "cov_bottom (analyze_regional_coverage (map (\<lambda>i. i div width) [0..<height * width])
                   (map (\<lambda>i. i mod width) [0..<height * width]) height width) =
         region_percentage (last_third_mask (map (\<lambda>i. i div width) [0..<height * width]) height)
           (height * width)"
  using assms by (simp_all add: analyze_regional_coverage_def Let_def)

lemma whole_image_regions:
  assumes "4 \<le> height" "4 \<le> width" "height * width < 2 ^ 53" "height \<noteq> 5"
  shows "regions (analyze_color_location height width (replicate (height * width) c) c) =
           [''Top and bottom edges'']"
proof -
  have w0: "0 < width" and hw: "0 < height * width" using assms by simp_all
  have t: "20 < cov_top (analyze_regional_coverage (map (\<lambda>i. i div width) [0..<height * width])
                   (map (\<lambda>i. i mod width) [0..<height * width]) height width)"
    unfolding whole_image_coverage [OF hw]
    using whole_image_top [OF assms(1) w0 assms(3)] by linarith
  have b: "20 < cov_bottom (analyze_regional_coverage (map (\<lambda>i. i div width) [0..<height * width])
                   (map (\<lambda>i. i mod width) [0..<height * width]) height width)"
    unfolding whole_image_coverage [OF hw]
    using whole_image_bottom [OF assms(1) assms(4) w0 assms(3)] by linarith
  show ?thesis
    unfolding whole_image_cluster [OF hw] Let_def using describe_top_bottom [OF t b] by simp
qed

lemma rd_fifth: "round_double (1 / 5) = 3602879701896397 / 2 ^ 54"
proof -
  have "round_double (1 / 5) =
      of_int (round_half_even ((1 / 5) / 2 powi (- 3 - 52))) * 2 powi (- 3 - 52)"
    by (rule round_double_eval) simp_all
  also have "\<dots> = 3602879701896397 / 2 ^ 54"
    by (simp add: round_half_even_def Let_def power_int_minus)
  finally show ?thesis .
qed

lemma rd_fifth_100: "round_double (3602879701896397 / 2 ^ 54 * 100) = 20"
proof -
  have "round_double (3602879701896397 / 2 ^ 54 * 100) =
      of_int (round_half_even ((3602879701896397 / 2 ^ 54 * 100) / 2 powi (4 - 52))) * 2 powi (4 - 52)"
    by (rule round_double_eval) simp_all
  also have "\<dots> = 20"
    by (simp add: round_half_even_def Let_def power_int_minus)
  finally show ?thesis .
qed

lemma one_of_five:
  assumes "0 < width" "5 * width < 2 ^ 53" "np_sum bs = width"
  shows "region_percentage bs (5 * width) = 20"
proof -
  have w: "width < 2 ^ 53" using assms(2) by simp
  have e: "real width / real (5 * width) = 1 / 5" using assms(1) by simp
  have "region_percentage bs (5 * width) =
      round_double (round_double (real width / real (5 * width)) * 100)"
    using w assms(2)
    by (simp add: region_percentage_def assms(3) double_of_nat_small fdiv_def fmul_def
        del: of_nat_mult)
  also have "\<dots> = round_double (round_double (1 / 5) * 100)" by (simp only: e)
  also have "\<dots> = round_double (3602879701896397 / 2 ^ 54 * 100)" by (simp only: rd_fifth)
  also have "\<dots> = 20" by (rule rd_fifth_100)
  finally show ?thesis .
qed

lemma thirds_of_five:
  "3 / 2 \<le> fdiv (real 5) 3" "fdiv (real 5) 3 \<le> 2"
  "13 / 4 \<le> fdiv (real (2 * 5)) 3" "fdiv (real (2 * 5)) 3 \<le> 7 / 2"
proof -
  have r: "representable (3 / 2)" "representable 2" "representable (13 / 4)" "representable (7 / 2)"
    using representable_dyadic_nat [of 3 1] representable_dyadic_nat [of 2 0]
      representable_dyadic_nat [of 13 2] representable_dyadic_nat [of 7 1] by simp_all
  show "3 / 2 \<le> fdiv (real 5) 3" unfolding fdiv_def using r(1) by (intro round_double_ge) simp_all
  show "fdiv (real 5) 3 \<le> 2" unfolding fdiv_def using r(2) by (intro round_double_le) simp_all
  show "13 / 4 \<le> fdiv (real (2 * 5)) 3"
    unfolding fdiv_def using r(3) by (intro round_double_ge) simp_all
  show "fdiv (real (2 * 5)) 3 \<le> 7 / 2"
    unfolding fdiv_def using r(4) by (intro round_double_le) simp_all
qed

lemma five_rows: "[0..<5] = [0, 1, 2, 3, 4]"
  by (simp add: upt_rec)

lemma rows_of_five:
  "length (filter (\<lambda>y. double_of_nat y \<ge> fdiv (real 5) 3 \<and>
                        double_of_nat y < fdiv (real (2 * 5)) 3) [0..<5]) = 2"
  "length (filter (\<lambda>y. double_of_nat y \<ge> fdiv (real (2 * 5)) 3) [0..<5]) = 1"
  unfolding five_rows using thirds_of_five by (simp_all add: double_of_nat_small)

lemma whole_image_regions_five:
  assumes "4 \<le> width" "5 * width < 2 ^ 53"
  shows "regions (analyze_color_location 5 width (replicate (5 * width) c) c) =
           [''Upper portion'', ''Middle section'']"
proof -
  have w0: "0 < width" and hw: "0 < 5 * width" using assms by simp_all
  have t: "20 < cov_top (analyze_regional_coverage (map (\<lambda>i. i div width) [0..<5 * width])
                   (map (\<lambda>i. i mod width) [0..<5 * width]) 5 width)"
    unfolding whole_image_coverage [OF hw]
    using whole_image_top [of 5 width, OF _ w0 assms(2)] by simp
  have cm: "np_sum (second_third_mask (map (\<lambda>i. i div width) [0..<5 * width]) 5) = width * 2"
    unfolding second_third_mask_def np_sum_map
    using filter_rows [OF w0, of "\<lambda>y. double_of_nat y \<ge> fdiv (real 5) 3 \<and>
                        double_of_nat y < fdiv (real (2 * 5)) 3" 5] rows_of_five(1)
    by simp
  have "25 \<le> region_percentage (second_third_mask (map (\<lambda>i. i div width) [0..<5 * width]) 5)
      (5 * width)"
    using assms w0 by (intro region_percentage_quarter) (simp_all add: cm)
  then have m: "20 < cov_middle (analyze_regional_coverage (map (\<lambda>i. i div width) [0..<5 * width])
                   (map (\<lambda>i. i mod width) [0..<5 * width]) 5 width)"
    unfolding whole_image_coverage [OF hw] by linarith
  have cb: "np_sum (last_third_mask (map (\<lambda>i. i div width) [0..<5 * width]) 5) = width"
    unfolding last_third_mask_def np_sum_map
    using filter_rows [OF w0, of "\<lambda>y. double_of_nat y \<ge> fdiv (real (2 * 5)) 3" 5] rows_of_five(2)
    by simp
  have b: "\<not> 20 < cov_bottom (analyze_regional_coverage (map (\<lambda>i. i div width) [0..<5 * width])
                   (map (\<lambda>i. i mod width) [0..<5 * width]) 5 width)"
    unfolding whole_image_coverage [OF hw] one_of_five [OF w0 assms(2) cb] by simp
  show ?thesis
    unfolding whole_image_cluster [OF hw] Let_def using describe_top_middle [OF t m b] by simp
qed

text \<open>
  C8, as the code has it. In an image of height and width at least 4 (and fewer than
  \<open>2 ^ 53\<close> pixels) whose pixels all carry the label of one cluster, that cluster is
  \<open>widespread\<close>; its top and bottom thirds each hold more than 20 percent of it, so the
  description collapses to \<open>Top and bottom edges\<close>. Height 5 is the exception: the bottom
  third is the last row, exactly 20 percent, and the description is the upper and middle
  thirds.
\<close>

theorem whole_image_cluster_location:
  assumes "4 \<le> height" "4 \<le> width" "height * width < 2 ^ 53"
  shows "distribution (analyze_color_location height width (replicate (height * width) c) c) =
           ''widespread'' \<and>
         regions (analyze_color_location height width (replicate (height * width) c) c) =
           (if height = 5 then [''Upper portion'', ''Middle section'']
            else [''Top and bottom edges''])"
proof -
  have hw: "0 < height * width" using assms by simp
  have d: "distribution (analyze_color_location height width (replicate (height * width) c) c) =
           ''widespread''"
    unfolding whole_image_cluster [OF hw] Let_def
    using whole_image_widespread [OF assms] by simp
  show ?thesis
  proof (cases "height = 5")
    case True
    then show ?thesis using d whole_image_regions_five [of width c] assms by simp
  next
    case False
    then show ?thesis using d whole_image_regions [OF assms False, of c] by simp
  qed
qed

text \<open>
  C8 as stated fails: in a 4 by 4 image filled by one cluster the regions are
  \<open>Top and bottom edges\<close>, not \<open>Throughout the image\<close>.
\<close>

theorem whole_image_not_throughout:
  "regions (analyze_color_location 4 4 (replicate (4 * 4) 0) 0) = [''Top and bottom edges''] \<and>
   regions (analyze_color_location 4 4 (replicate (4 * 4) 0) 0) \<noteq> [''Throughout the image'']"
proof -
  have "regions (analyze_color_location 4 4 (replicate (4 * 4) 0) 0) = [''Top and bottom edges'']"
    by (rule whole_image_regions) simp_all
  then show ?thesis by simp
qed

text \<open>
  C8, as the code has it, at the 4 by 4 image.
\<close>

theorem whole_image_cluster_location_witness:
  "(4::nat) \<le> 4 \<and> (4::nat) * 4 < 2 ^ 53 \<and>
   distribution (analyze_color_location 4 4 (replicate (4 * 4) 0) 0) = ''widespread'' \<and>
   regions (analyze_color_location 4 4 (replicate (4 * 4) 0) 0) = [''Top and bottom edges'']"
proof -
  have a: "(4::nat) \<le> 4" and b: "(4::nat) * 4 < 2 ^ 53" by simp_all
  from whole_image_cluster_location [OF a a b, of 0] a b show ?thesis by simp
qed

section \<open>Properties of extract_dominant_colors\<close>

lemma cluster_percentage_region:
  "cluster_percentage filtered_labels i total_pixels =
     region_percentage (map (\<lambda>l. l = i) filtered_labels) total_pixels"
  by (simp add: cluster_percentage_def region_percentage_def)

lemma cluster_percentage_range:
  assumes "filtered_labels \<noteq> []"
  shows "0 \<le> cluster_percentage filtered_labels i (length filtered_labels)"
    "cluster_percentage filtered_labels i (length filtered_labels) \<le> 100"
proof -
  have n0: "0 < length filtered_labels" using assms by simp
  have le: "np_sum (map (\<lambda>l. l = i) filtered_labels) \<le> length filtered_labels"
    using np_sum_le [of "map (\<lambda>l. l = i) filtered_labels"] by simp
  show "0 \<le> cluster_percentage filtered_labels i (length filtered_labels)"
    unfolding cluster_percentage_region using n0 le by (rule region_percentage_range)
  show "cluster_percentage filtered_labels i (length filtered_labels) \<le> 100"
    unfolding cluster_percentage_region using n0 le by (rule region_percentage_range)
qed

lemma percentage_color_entry:
  "percentage (color_entry lib img all_labels filtered_labels (i, c)) =
     cluster_percentage filtered_labels i (length filtered_labels)"
  by (cases c) (simp add: color_entry_def)

lemma sorted_descending:
  "sorted_wrt (\<lambda>a b. percentage b \<le> percentage a) (rev (sort_key percentage xs))"
proof -
  have "sorted (map percentage (sort_key percentage xs))" by simp
  then have "sorted_wrt (\<lambda>a b. percentage a \<le> percentage b) (sort_key percentage xs)"
    by (simp add: sorted_wrt_map)
  then show ?thesis by (simp add: sorted_wrt_rev)
qed

lemma extract_success:
  assumes "loaded_image = Inr img"
    and "kmeans_fit lib num_colors (clustering_input img num_colors) = Inr km"
    and "kmeans_predict lib km (img_pixels img) = Inr all_labels"
  shows "extract_dominant_colors lib loaded_image num_colors =
     rev (sort_key percentage (rev (map (color_entry lib img all_labels (km_labels km))
       (List.enumerate 0 (map (\<lambda>(x, y, z). (astype_int x, astype_int y, astype_int z))
          (km_cluster_centers km))))))"
  using assms by (simp add: extract_dominant_colors_def Let_def)

lemma extract_failure:
  assumes "(\<exists>e. loaded_image = Inl e) \<or>
           (\<exists>img e. loaded_image = Inr img \<and>
              kmeans_fit lib num_colors (clustering_input img num_colors) = Inl e) \<or>
           (\<exists>img km e. loaded_image = Inr img \<and>
              kmeans_fit lib num_colors (clustering_input img num_colors) = Inr km \<and>
              kmeans_predict lib km (img_pixels img) = Inl e)"
  shows "extract_dominant_colors lib loaded_image num_colors = []"
  using assms by (auto simp: extract_dominant_colors_def Let_def)

lemma eighths:
  "round_double (1 / 8) = 1 / 8" "round_double (1 / 4) = 1 / 4" "round_double (5 / 8) = 5 / 8"
  "round_double (25 / 2) = 25 / 2" "round_double 25 = 25" "round_double (125 / 2) = 125 / 2"
  using representable_dyadic_nat [of 1 3] representable_dyadic_nat [of 1 2]
    representable_dyadic_nat [of 5 3] representable_dyadic_nat [of 25 1]
    representable_dyadic_nat [of 25 0] representable_dyadic_nat [of 125 1]
  by (simp_all add: round_double_exact)

lemma three_cluster_percentages:
  "cluster_percentage [2, 2, 0, 2, 1, 2, 1, 2] 0 8 = 25 / 2"
  "cluster_percentage [2, 2, 0, 2, 1, 2, 1, 2] 1 8 = 25"
  "cluster_percentage [2, 2, 0, 2, 1, 2, 1, 2] 2 8 = 125 / 2"
  by (simp_all add: cluster_percentage_def np_sum_def double_of_nat_small fdiv_def fmul_def eighths)

lemma brightness_mask_mid:
  assumes "63 \<le> a + b + c" "a + b + c \<le> 702"
  shows "brightness_mask (a, b, c)"
proof -
  have small: "a + b + c < 2 ^ 53" using assms(2) by simp
  have pos: "0 < real (a + b + c) / 3" using assms(1) by simp
  have lo: "21 \<le> real (a + b + c) / 3" and hi: "real (a + b + c) / 3 \<le> 234"
    using assms by simp_all
  have "representable 21" "representable 234"
    using representable_of_nat [of 21] representable_of_nat [of 234] by simp_all
  then have "21 \<le> round_double (real (a + b + c) / 3)" "round_double (real (a + b + c) / 3) \<le> 234"
    using pos lo hi round_double_ge round_double_le by blast+
  then show ?thesis
    using small by (simp add: brightness_mask_def Let_def fdiv_def double_of_nat_small)
qed

lemma brightness_of_eight: "filter brightness_mask (img_pixels eight_pixels) = img_pixels eight_pixels"
  unfolding eight_pixels_def by (simp add: brightness_mask_mid)

lemma clustering_input_eight: "clustering_input eight_pixels 3 = img_pixels eight_pixels"
  by (simp add: clustering_input_def Let_def brightness_of_eight)

lemma fit_eight:
  "kmeans_fit three_cluster_library 3 (clustering_input eight_pixels 3) = Inr three_clusters"
  unfolding clustering_input_eight by (simp add: three_cluster_library_def eight_pixels_def)

lemma predict_eight:
  "kmeans_predict three_cluster_library three_clusters (img_pixels eight_pixels) =
     Inr [2, 2, 0, 2, 1, 2, 1, 2]"
  by (simp add: three_cluster_library_def three_clusters_def)

lemma enumerate_three: "List.enumerate 0 [a, b, c] = [(0, a), (1, b), (2, c)]"
  by (simp add: numeral_2_eq_2)

lemma sort_three_descending:
  assumes "f a < f b" "f b < f c"
  shows "rev (sort_key f (rev [a, b, c])) = [c, b, (a :: 'a)]"
  using assms by auto

lemma extract_eight:
  "extract_dominant_colors three_cluster_library (Inr eight_pixels) 3 =
     [color_entry three_cluster_library eight_pixels [2, 2, 0, 2, 1, 2, 1, 2]
        [2, 2, 0, 2, 1, 2, 1, 2] (2, (90, 90, 200)),
      color_entry three_cluster_library eight_pixels [2, 2, 0, 2, 1, 2, 1, 2]
        [2, 2, 0, 2, 1, 2, 1, 2] (1, (10, 120, 60)),
      color_entry three_cluster_library eight_pixels [2, 2, 0, 2, 1, 2, 1, 2]
        [2, 2, 0, 2, 1, 2, 1, 2] (0, (200, 30, 40))]"
proof -
  have len: "length [2, 2, 0, 2, 1, 2, 1, 2 :: nat] = 8" by simp
  have p: "percentage (color_entry three_cluster_library eight_pixels [2, 2, 0, 2, 1, 2, 1, 2]
        [2, 2, 0, 2, 1, 2, 1, 2] (0, (200, 30, 40))) = 25 / 2"
    "percentage (color_entry three_cluster_library eight_pixels [2, 2, 0, 2, 1, 2, 1, 2]
        [2, 2, 0, 2, 1, 2, 1, 2] (1, (10, 120, 60))) = 25"
    "percentage (color_entry three_cluster_library eight_pixels [2, 2, 0, 2, 1, 2, 1, 2]
        [2, 2, 0, 2, 1, 2, 1, 2] (2, (90, 90, 200))) = 125 / 2"
    unfolding percentage_color_entry len by (rule three_cluster_percentages)+
  have c: "map (\<lambda>(x, y, z). (astype_int x, astype_int y, astype_int z))
      (km_cluster_centers three_clusters) = [(200, 30, 40), (10, 120, 60), (90, 90, 200)]"
    by (simp add: three_clusters_def astype_int_def)
  have l: "km_labels three_clusters = [2, 2, 0, 2, 1, 2, 1, 2]" by (simp add: three_clusters_def)
  show ?thesis
    unfolding extract_success [OF refl fit_eight predict_eight] c l enumerate_three list.map
    by (rule sort_three_descending; unfold p; simp)
qed

lemma extract_permutation:
  assumes "loaded_image = Inr img"
    and "kmeans_fit lib num_colors (clustering_input img num_colors) = Inr km"
    and "kmeans_predict lib km (img_pixels img) = Inr all_labels"
  shows "mset (extract_dominant_colors lib loaded_image num_colors) =
         mset (map (color_entry lib img all_labels (km_labels km))
           (List.enumerate 0 (map (\<lambda>(x, y, z). (astype_int x, astype_int y, astype_int z))
              (km_cluster_centers km))))"
  unfolding extract_success [OF assms] by simp

text \<open>
  C5. When the image loads and both scikit-learn calls return, the result is a
  rearrangement of one entry per cluster centre, in descending order of \<open>percentage\<close>;
  with \<open>fit\<close> giving \<open>num_colors\<close> centres (the shape of \<open>cluster_centers_\<close>) it has
  exactly \<open>num_colors\<close> entries, and with labels for at least one pixel each percentage
  lies between 0 and 100. When one of the three steps raises, the result has no entry.
\<close>

theorem extract_dominant_colors_shape:
  "(loaded_image = Inr img \<and>
    kmeans_fit lib num_colors (clustering_input img num_colors) = Inr km \<and>
    kmeans_predict lib km (img_pixels img) = Inr all_labels \<longrightarrow>
      length (extract_dominant_colors lib loaded_image num_colors) =
        length (km_cluster_centers km) \<and>
      mset (extract_dominant_colors lib loaded_image num_colors) =
        mset (map (color_entry lib img all_labels (km_labels km))
          (List.enumerate 0 (map (\<lambda>(x, y, z). (astype_int x, astype_int y, astype_int z))
             (km_cluster_centers km)))) \<and>
      sorted_wrt (\<lambda>a b. percentage b \<le> percentage a)
        (extract_dominant_colors lib loaded_image num_colors) \<and>
      (int (length (km_cluster_centers km)) = num_colors \<longrightarrow>
         int (length (extract_dominant_colors lib loaded_image num_colors)) = num_colors) \<and>
      (km_labels km \<noteq> [] \<longrightarrow>
         (\<forall>e \<in> set (extract_dominant_colors lib loaded_image num_colors).
            0 \<le> percentage e \<and> percentage e \<le> 100))) \<and>
   ((\<exists>e. loaded_image = Inl e) \<or>
    (\<exists>img e. loaded_image = Inr img \<and>
       kmeans_fit lib num_colors (clustering_input img num_colors) = Inl e) \<or>
    (\<exists>img km e. loaded_image = Inr img \<and>
       kmeans_fit lib num_colors (clustering_input img num_colors) = Inr km \<and>
       kmeans_predict lib km (img_pixels img) = Inl e) \<longrightarrow>
      length (extract_dominant_colors lib loaded_image num_colors) = 0)"
proof (intro conjI impI)
  assume h: "loaded_image = Inr img \<and>
    kmeans_fit lib num_colors (clustering_input img num_colors) = Inr km \<and>
    kmeans_predict lib km (img_pixels img) = Inr all_labels"
  then have a: "loaded_image = Inr img"
    and f: "kmeans_fit lib num_colors (clustering_input img num_colors) = Inr km"
    and p: "kmeans_predict lib km (img_pixels img) = Inr all_labels" by simp_all
  note r = extract_success [OF a f p]
  show "length (extract_dominant_colors lib loaded_image num_colors) =
        length (km_cluster_centers km)"
    unfolding r by (simp add: length_enumerate)
  then show "int (length (extract_dominant_colors lib loaded_image num_colors)) = num_colors"
    if "int (length (km_cluster_centers km)) = num_colors" using that by simp
  show "mset (extract_dominant_colors lib loaded_image num_colors) =
        mset (map (color_entry lib img all_labels (km_labels km))
          (List.enumerate 0 (map (\<lambda>(x, y, z). (astype_int x, astype_int y, astype_int z))
             (km_cluster_centers km))))"
    using a f p by (rule extract_permutation)
  show "sorted_wrt (\<lambda>a b. percentage b \<le> percentage a)
        (extract_dominant_colors lib loaded_image num_colors)"
    unfolding r by (rule sorted_descending)
  show "\<forall>e \<in> set (extract_dominant_colors lib loaded_image num_colors).
            0 \<le> percentage e \<and> percentage e \<le> 100"
    if l: "km_labels km \<noteq> []"
  proof
    fix e assume "e \<in> set (extract_dominant_colors lib loaded_image num_colors)"
    then obtain i c where "e = color_entry lib img all_labels (km_labels km) (i, c)"
      unfolding r by auto
    then have "percentage e = cluster_percentage (km_labels km) i (length (km_labels km))"
      by (simp add: percentage_color_entry)
    then show "0 \<le> percentage e \<and> percentage e \<le> 100"
      using cluster_percentage_range [OF l, of i] by simp
  qed
next
  assume "(\<exists>e. loaded_image = Inl e) \<or>
    (\<exists>img e. loaded_image = Inr img \<and>
       kmeans_fit lib num_colors (clustering_input img num_colors) = Inl e) \<or>
    (\<exists>img km e. loaded_image = Inr img \<and>
       kmeans_fit lib num_colors (clustering_input img num_colors) = Inr km \<and>
       kmeans_predict lib km (img_pixels img) = Inl e)"
  then show "length (extract_dominant_colors lib loaded_image num_colors) = 0"
    using extract_failure [of loaded_image lib num_colors] by simp
qed

text \<open>
  C5 at an image of eight pixels and three clusters holding one, two and five of them: the
  three entries come out with 62.5, 25 and 12.5 percent, the reverse of the order of the
  centres; and at the same image with two clusters asked, where the clustering raises.
\<close>

theorem extract_dominant_colors_shape_witness:
  "kmeans_fit three_cluster_library 3 (clustering_input eight_pixels 3) = Inr three_clusters \<and>
   kmeans_predict three_cluster_library three_clusters (img_pixels eight_pixels) =
     Inr [2, 2, 0, 2, 1, 2, 1, 2] \<and>
   int (length (km_cluster_centers three_clusters)) = 3 \<and>
   km_labels three_clusters \<noteq> [] \<and>
   int (length (extract_dominant_colors three_cluster_library (Inr eight_pixels) 3)) = 3 \<and>
   sorted_wrt (\<lambda>a b. percentage b \<le> percentage a)
     (extract_dominant_colors three_cluster_library (Inr eight_pixels) 3) \<and>
   map percentage (extract_dominant_colors three_cluster_library (Inr eight_pixels) 3) =
     [125 / 2, 25, 25 / 2] \<and>
   map rgb (extract_dominant_colors three_cluster_library (Inr eight_pixels) 3) =
     [(90, 90, 200), (10, 120, 60), (200, 30, 40)] \<and>
   0 \<le> percentage (hd (extract_dominant_colors three_cluster_library (Inr eight_pixels) 3)) \<and>
   percentage (hd (extract_dominant_colors three_cluster_library (Inr eight_pixels) 3)) \<le> 100 \<and>
   kmeans_fit three_cluster_library 2 (clustering_input eight_pixels 2) = Inl Exception \<and>
   length (extract_dominant_colors three_cluster_library (Inr eight_pixels) 2) = 0"
proof -
  have c: "int (length (km_cluster_centers three_clusters)) = 3"
    and l: "km_labels three_clusters \<noteq> []" by (simp_all add: three_clusters_def)
  note t = extract_dominant_colors_shape [of "Inr eight_pixels" eight_pixels
      three_cluster_library 3 three_clusters "[2, 2, 0, 2, 1, 2, 1, 2]"]
  from t fit_eight predict_eight c
  have n: "int (length (extract_dominant_colors three_cluster_library (Inr eight_pixels) 3)) = 3"
    by blast
  from t fit_eight predict_eight
  have s: "sorted_wrt (\<lambda>a b. percentage b \<le> percentage a)
     (extract_dominant_colors three_cluster_library (Inr eight_pixels) 3)" by blast
  from n have "extract_dominant_colors three_cluster_library (Inr eight_pixels) 3 \<noteq> []" by auto
  then have mem: "hd (extract_dominant_colors three_cluster_library (Inr eight_pixels) 3)
     \<in> set (extract_dominant_colors three_cluster_library (Inr eight_pixels) 3)" by (rule hd_in_set)
  from t fit_eight predict_eight l mem
  have r: "0 \<le> percentage (hd (extract_dominant_colors three_cluster_library (Inr eight_pixels) 3)) \<and>
    percentage (hd (extract_dominant_colors three_cluster_library (Inr eight_pixels) 3)) \<le> 100"
    by blast
  have len: "length [2, 2, 0, 2, 1, 2, 1, 2 :: nat] = 8" by simp
  have mp: "map percentage (extract_dominant_colors three_cluster_library (Inr eight_pixels) 3) =
     [125 / 2, 25, 25 / 2]"
    unfolding extract_eight list.map percentage_color_entry len three_cluster_percentages ..
  have mr: "map rgb (extract_dominant_colors three_cluster_library (Inr eight_pixels) 3) =
     [(90, 90, 200), (10, 120, 60), (200, 30, 40)]"
    unfolding extract_eight by (simp add: color_entry_def)
  have f2: "kmeans_fit three_cluster_library 2 (clustering_input eight_pixels 2) = Inl Exception"
    by (simp add: three_cluster_library_def)
  from extract_dominant_colors_shape [of "Inr eight_pixels" eight_pixels
      three_cluster_library 2 three_clusters "[2, 2, 0, 2, 1, 2, 1, 2]"] f2
  have z: "length (extract_dominant_colors three_cluster_library (Inr eight_pixels) 2) = 0"
    by blast
  from fit_eight predict_eight c l n s mp mr r f2 z show ?thesis by blast
qed

text \<open>
  C6. When the loading of the image, the clustering or the prediction raises, the result is
  the empty list; the function has no other outcome than a list.
\<close>

theorem extract_dominant_colors_failure:
  assumes "(\<exists>e. loaded_image = Inl e) \<or>
           (\<exists>img e. loaded_image = Inr img \<and>
              kmeans_fit lib num_colors (clustering_input img num_colors) = Inl e) \<or>
           (\<exists>img km e. loaded_image = Inr img \<and>
              kmeans_fit lib num_colors (clustering_input img num_colors) = Inr km \<and>
              kmeans_predict lib km (img_pixels img) = Inl e)"
  shows "extract_dominant_colors lib loaded_image num_colors = []"
  using assms by (auto simp: extract_dominant_colors_def Let_def)

text \<open>C6 where two clusters are asked of the one-pixel image and the clustering raises.\<close>

theorem extract_dominant_colors_failure_witness:
  "kmeans_fit stub_library 2 (clustering_input one_pixel 2) = Inl Exception \<and>
   extract_dominant_colors stub_library (Inr one_pixel) 2 = []"
proof -
  have f: "kmeans_fit stub_library 2 (clustering_input one_pixel 2) = Inl Exception"
    by (simp add: stub_library_def)
  then have "(\<exists>e. (Inr one_pixel :: exn + img_array) = Inl e) \<or>
           (\<exists>img e. (Inr one_pixel :: exn + img_array) = Inr img \<and>
              kmeans_fit stub_library 2 (clustering_input img 2) = Inl e) \<or>
           (\<exists>img km e. (Inr one_pixel :: exn + img_array) = Inr img \<and>
              kmeans_fit stub_library 2 (clustering_input img 2) = Inr km \<and>
              kmeans_predict stub_library km (img_pixels img) = Inl e)"
    by blast
  from extract_dominant_colors_failure [OF this] f show ?thesis by blast
qed

end
